theory Spec2Isabelle
  imports Main "HOL-Library.Word"
begin

unbundle bit_operations_syntax

section \<open>Buffers, strings and errors\<close>

text \<open>
  A Node \<open>Buffer\<close> is a list of bytes. A JavaScript string is a list of UTF-16 code
  units. Numbers that the code only uses as sizes and indices are \<open>nat\<close>; numbers that
  can be negative (\<open>dataOffset = -1\<close>, a \<open>len\<close> read from the metadata) are \<open>int\<close>.
\<close>

type_synonym byte = "8 word"
type_synonym bytes = "byte list"
type_synonym jsstring = "16 word list"

definition js :: "string \<Rightarrow> jsstring" where
  "js s = map (\<lambda>c. of_nat (of_char c)) s"

definition ascii :: "string \<Rightarrow> bytes" where
  "ascii s = map (\<lambda>c. of_nat (of_char c)) s"

text \<open>
  Every \<open>throw new Error(...)\<close> and every \<open>return { error: ... }\<close> of the server is a
  constructor, and so is the answer "At least one secret is required" of the embed handler; \<open>RangeError\<close> stands for the out-of-range errors that \<open>Buffer\<close> reads and
  \<open>Buffer.alloc\<close> raise; \<open>AuthFailed\<close> is the exception of \<open>decipher.final()\<close>.
\<close>

datatype error =
    SecretRequired
  | NoSecretData
  | NotEnoughCapacity nat nat
  | NotEnoughWavCapacity nat nat
  | NotRiffWave
  | MissingFmt
  | NotPCM
  | UnsupportedBitDepth nat
  | MissingData
  | OutOfCapacityReading
  | OutOfAudioCapacityReading
  | InvalidEncHeader
  | PasswordRequired
  | AuthFailed
  | NoValidPayload
  | CorruptedMetadata
  | MagicMismatch
  | RangeError

text \<open>
  A statement that may throw, followed by the rest of the function: \<open>bindE\<close> runs the
  rest on the value and passes an error on.
\<close>

definition bindE :: "error + 'a \<Rightarrow> ('a \<Rightarrow> error + 'b) \<Rightarrow> error + 'b" where
  "bindE x f = (case x of Inl e \<Rightarrow> Inl e | Inr v \<Rightarrow> f v)"

section \<open>Helpers\<close>

text \<open>\<open>u32\<close>: \<open>b.writeUInt32BE(n >>> 0, 0)\<close>; \<open>n >>> 0\<close> wraps at \<open>2^32\<close>.\<close>

definition u32 :: "nat \<Rightarrow> bytes" where
  "u32 n = (let m = n mod 2 ^ 32 in
     [of_nat (m div 2 ^ 24), of_nat (m div 2 ^ 16), of_nat (m div 2 ^ 8), of_nat m])"

definition bitsNeeded :: "nat \<Rightarrow> nat" where
  "bitsNeeded nBytes = nBytes * 8"

text \<open>\<open>buf.readUInt32BE(0)\<close> raises when the buffer has fewer than four bytes.\<close>

definition readU32BE :: "bytes \<Rightarrow> error + nat" where
  "readU32BE buf =
     (if length buf < 4 then Inl RangeError
      else Inr (unat (buf ! 0) * 2 ^ 24 + unat (buf ! 1) * 2 ^ 16
                + unat (buf ! 2) * 2 ^ 8 + unat (buf ! 3)))"

text \<open>\<open>Math.ceil(bits / 8 / 1024)\<close>; both divisions are by powers of two, hence exact.\<close>

definition ceilKB :: "nat \<Rightarrow> nat" where
  "ceilKB bits = (bits + 8191) div 8192"

section \<open>LSB embedding\<close>

text \<open>
  \<open>(payload[i] >> b) & 1\<close> and \<open>(buf[k] & 0xfe) | bit\<close>. A store to an index outside a
  \<open>Buffer\<close> is dropped by JavaScript, as \<open>xs[k := v]\<close> is by HOL.
\<close>

definition payloadBit :: "byte \<Rightarrow> nat \<Rightarrow> byte" where
  "payloadBit x b = (drop_bit b x) AND 1"

definition setLSB :: "byte \<Rightarrow> byte \<Rightarrow> byte" where
  "setLSB s v = (s AND 0xfe) OR v"

text \<open>
  Both embedders run the same two loops and differ only in the byte offset of bit
  \<open>bitIdx\<close>. The inner loop \<open>for (b = 7; b >= 0; b--)\<close> is \<open>embedByte\<close>, counting the
  bits still to write (\<open>Suc b\<close> writes bit \<open>b\<close>); the outer loop over the payload is
  \<open>embedLoop\<close>. Both return the buffer and \<open>bitIdx\<close>.
\<close>

fun embedByte :: "(nat \<Rightarrow> nat) \<Rightarrow> bytes \<Rightarrow> nat \<Rightarrow> byte \<Rightarrow> nat \<Rightarrow> bytes \<times> nat" where
  "embedByte addr buf bitIdx x 0 = (buf, bitIdx)"
| "embedByte addr buf bitIdx x (Suc b) =
     embedByte addr (buf[addr bitIdx := setLSB (buf ! addr bitIdx) (payloadBit x b)])
       (bitIdx + 1) x b"

fun embedLoop :: "(nat \<Rightarrow> nat) \<Rightarrow> bytes \<Rightarrow> nat \<Rightarrow> bytes \<Rightarrow> bytes \<times> nat" where
  "embedLoop addr buf bitIdx [] = (buf, bitIdx)"
| "embedLoop addr buf bitIdx (x # xs) =
     (case embedByte addr buf bitIdx x 8 of (buf', bitIdx') \<Rightarrow> embedLoop addr buf' bitIdx' xs)"

text \<open>Image: \<open>pixelIndex = floor(bitIdx / 3)\<close>, \<open>channel = bitIdx % 3\<close>, stride 4.\<close>

definition rgbaOffset :: "nat \<Rightarrow> nat" where
  "rgbaOffset bitIdx = (bitIdx div 3) * 4 + bitIdx mod 3"

text \<open>
  \<open>embedLSB_RGBA\<close> mutates \<open>rgbabuf\<close> in place and returns \<open>{error}\<close> or
  \<open>{ok, usedBits}\<close>; the model returns that result together with the buffer as the call
  leaves it.
\<close>

definition embedLSB_RGBA :: "bytes \<Rightarrow> nat \<Rightarrow> nat \<Rightarrow> bytes \<Rightarrow> (error + nat) \<times> bytes" where
  "embedLSB_RGBA rgbabuf width height payload =
     (let capacityBits = width * height * 3;
          needBits = bitsNeeded (length payload)
      in if needBits > capacityBits
         then (Inl (NotEnoughCapacity (ceilKB needBits) (ceilKB capacityBits)), rgbabuf)
         else (Inr needBits, fst (embedLoop rgbaOffset rgbabuf 0 payload)))"

text \<open>
  Audio: \<open>lsbByte = dataOffset + sampleIndex * bytesPerSample\<close>. The callers pass the
  \<open>bitsPerSample\<close> that \<open>parseWavHeader\<close> accepted (8 or 16), so \<open>bitsPerSample / 8\<close>
  is a whole number.
\<close>

definition wavOffset :: "nat \<Rightarrow> nat \<Rightarrow> nat \<Rightarrow> nat" where
  "wavOffset dataOffset bytesPerSample bitIdx = dataOffset + bitIdx * bytesPerSample"

definition embedLSB_WavPCM ::
  "bytes \<Rightarrow> bytes \<Rightarrow> nat \<Rightarrow> nat \<Rightarrow> nat \<Rightarrow> (error + nat) \<times> bytes" where
  "embedLSB_WavPCM buf payload dataOffset dataLength bitsPerSample =
     (let bytesPerSample = bitsPerSample div 8;
          numSamples = dataLength div bytesPerSample;
          capacityBits = numSamples;
          needBits = bitsNeeded (length payload)
      in if needBits > capacityBits
         then (Inl (NotEnoughWavCapacity (ceilKB needBits) (ceilKB capacityBits)), buf)
         else (Inr needBits, fst (embedLoop (wavOffset dataOffset bytesPerSample) buf 0 payload)))"

text \<open>The bit of the payload that has index \<open>i\<close> in the most-significant-first walk.\<close>

definition bitAt :: "bytes \<Rightarrow> nat \<Rightarrow> byte" where
  "bitAt payload i = payloadBit (payload ! (i div 8)) (7 - i mod 8)"

section \<open>Bitstream readers\<close>

text \<open>\<open>buf[k] & 1\<close>; reading outside the buffer gives \<open>undefined\<close>, and \<open>undefined & 1\<close> is 0.\<close>

definition lsbAt :: "bytes \<Rightarrow> nat \<Rightarrow> byte" where
  "lsbAt buf k = (if k < length buf then (buf ! k) AND 1 else 0)"

text \<open>
  The two reader objects of \<open>handleExtract\<close> hold a buffer, a cursor \<open>bitIdx\<close> and a
  capacity, and differ in the byte offset of a bit and in the message of the error.
\<close>

record reader =
  rbuf :: bytes
  raddr :: "nat \<Rightarrow> nat"
  capacityBits :: nat
  outOfCapacity :: error
  bitIdx :: nat

text \<open>
  The inner loop of \<open>readBytes\<close>: \<open>Suc b\<close> reads bit \<open>b\<close> of the byte, after the
  capacity check of that very bit.
\<close>

fun readByte :: "reader \<Rightarrow> byte \<Rightarrow> nat \<Rightarrow> error + (byte \<times> reader)" where
  "readByte r byte 0 = Inr (byte, r)"
| "readByte r byte (Suc b) =
     (if bitIdx r \<ge> capacityBits r then Inl (outOfCapacity r)
      else readByte (r\<lparr>bitIdx := bitIdx r + 1\<rparr>)
             (byte OR push_bit b (lsbAt (rbuf r) (raddr r (bitIdx r)))) b)"

fun readBytesLoop :: "reader \<Rightarrow> nat \<Rightarrow> error + (bytes \<times> reader)" where
  "readBytesLoop r 0 = Inr ([], r)"
| "readBytesLoop r (Suc n) =
     (case readByte r 0 8 of
        Inl e \<Rightarrow> Inl e
      | Inr (x, r') \<Rightarrow>
          (case readBytesLoop r' n of
             Inl e \<Rightarrow> Inl e
           | Inr (out, r'') \<Rightarrow> Inr (x # out, r'')))"

text \<open>
  \<open>readBytes\<close> starts with \<open>Buffer.alloc(n)\<close>, which raises a range error for a size
  below zero or above the greatest length of a \<open>Buffer\<close>, \<open>2^53 - 1\<close>, before any bit is
  read. A size within that range is taken to be allocated: the memory of the machine is
  not part of the model.
\<close>

definition kMaxLength :: int where
  "kMaxLength = 9007199254740991"

definition readBytes :: "reader \<Rightarrow> int \<Rightarrow> error + (bytes \<times> reader)" where
  "readBytes r n =
     (if n < 0 \<or> n > kMaxLength then Inl RangeError else readBytesLoop r (nat n))"

definition imageReader :: "bytes \<Rightarrow> nat \<Rightarrow> nat \<Rightarrow> reader" where
  "imageReader data width height =
     \<lparr>rbuf = data, raddr = rgbaOffset, capacityBits = width * height * 3,
      outOfCapacity = OutOfCapacityReading, bitIdx = 0\<rparr>"

definition audioReader :: "bytes \<Rightarrow> nat \<Rightarrow> nat \<Rightarrow> nat \<Rightarrow> reader" where
  "audioReader wav dataOffset bytesPerSample numSamples =
     \<lparr>rbuf = wav, raddr = wavOffset dataOffset bytesPerSample, capacityBits = numSamples,
      outOfCapacity = OutOfAudioCapacityReading, bitIdx = 0\<rparr>"

text \<open>
  The carrier bit with index \<open>i\<close> as a reader sees it, and what it means that the carrier
  of a reader holds a payload from bit 0 on, within the capacity of the reader.
\<close>

definition carrierBit :: "reader \<Rightarrow> nat \<Rightarrow> bool" where
  "carrierBit r i \<longleftrightarrow> bit (lsbAt (rbuf r) (raddr r i)) 0"

definition holdsPayload :: "reader \<Rightarrow> bytes \<Rightarrow> bool" where
  "holdsPayload r payload \<longleftrightarrow>
     8 * length payload \<le> capacityBits r
     \<and> (\<forall>i < 8 * length payload. carrierBit r i \<longleftrightarrow> bit (bitAt payload i) 0)"

section \<open>WAV header\<close>

text \<open>
  \<open>buf.toString("ascii", s, e)\<close> clamps the range to the buffer and clears the high bit
  of every byte.
\<close>

definition asciiSlice :: "bytes \<Rightarrow> nat \<Rightarrow> nat \<Rightarrow> bytes" where
  "asciiSlice buf s e = map (\<lambda>b. b AND 0x7f) (take (e - s) (drop s buf))"

definition readUInt16LE :: "bytes \<Rightarrow> nat \<Rightarrow> error + nat" where
  "readUInt16LE buf off =
     (if off + 2 \<le> length buf then Inr (unat (buf ! off) + unat (buf ! (off + 1)) * 2 ^ 8)
      else Inl RangeError)"

definition readUInt32LE :: "bytes \<Rightarrow> nat \<Rightarrow> error + nat" where
  "readUInt32LE buf off =
     (if off + 4 \<le> length buf
      then Inr (unat (buf ! off) + unat (buf ! (off + 1)) * 2 ^ 8
                + unat (buf ! (off + 2)) * 2 ^ 16 + unat (buf ! (off + 3)) * 2 ^ 24)
      else Inl RangeError)"

record wav_fmt =
  audioFormat :: nat
  numChannels :: nat
  sampleRate :: nat
  byteRate :: nat
  blockAlign :: nat
  bitsPerSample :: nat

text \<open>The six reads of the \<open>fmt \<close> branch, in the order of the source.\<close>

definition readFmt :: "bytes \<Rightarrow> nat \<Rightarrow> error + wav_fmt" where
  "readFmt buf start =
     bindE (readUInt16LE buf (start + 0)) (\<lambda>af.
     bindE (readUInt16LE buf (start + 2)) (\<lambda>nc.
     bindE (readUInt32LE buf (start + 4)) (\<lambda>sr.
     bindE (readUInt32LE buf (start + 8)) (\<lambda>br.
     bindE (readUInt16LE buf (start + 12)) (\<lambda>ba.
     bindE (readUInt16LE buf (start + 14)) (\<lambda>bps.
       Inr \<lparr>audioFormat = af, numChannels = nc, sampleRate = sr, byteRate = br,
            blockAlign = ba, bitsPerSample = bps\<rparr>))))))"

text \<open>
  The chunk loop \<open>while (offset + 8 <= buf.length)\<close> with its \<open>break\<close>; the state is
  \<open>fmt\<close> (\<open>null\<close> is \<open>None\<close>), \<open>dataOffset\<close> and \<open>dataLength\<close>.
\<close>

function scanChunks ::
  "bytes \<Rightarrow> nat \<Rightarrow> wav_fmt option \<Rightarrow> int \<Rightarrow> int \<Rightarrow> error + (wav_fmt option \<times> int \<times> int)" where
  "scanChunks buf offset fmt dOff dLen =
     (if offset + 8 \<le> length buf then
        (case readUInt32LE buf (offset + 4) of
           Inl e \<Rightarrow> Inl e
         | Inr sz \<Rightarrow>
             if offset + 8 + sz > length buf then Inr (fmt, dOff, dLen)
             else if asciiSlice buf offset (offset + 4) = ascii ''fmt '' then
               (case readFmt buf (offset + 8) of
                  Inl e \<Rightarrow> Inl e
                | Inr f \<Rightarrow> scanChunks buf (offset + 8 + sz + sz mod 2) (Some f) dOff dLen)
             else if asciiSlice buf offset (offset + 4) = ascii ''data'' then
               scanChunks buf (offset + 8 + sz + sz mod 2) fmt (int (offset + 8)) (int sz)
             else scanChunks buf (offset + 8 + sz + sz mod 2) fmt dOff dLen)
      else Inr (fmt, dOff, dLen))"
  by pat_completeness auto
termination
  by (relation "measure (\<lambda>(buf, offset, fmt, dOff, dLen). length buf - offset)") auto

record wav_header =
  h_dataOffset :: nat
  h_dataLength :: nat
  h_fmt :: wav_fmt

definition parseWavHeader :: "bytes \<Rightarrow> error + wav_header" where
  "parseWavHeader buf =
     (if asciiSlice buf 0 4 \<noteq> ascii ''RIFF'' \<or> asciiSlice buf 8 12 \<noteq> ascii ''WAVE''
      then Inl NotRiffWave
      else case scanChunks buf 12 None (- 1) (- 1) of
             Inl e \<Rightarrow> Inl e
           | Inr (fmt, dOff, dLen) \<Rightarrow>
               (case fmt of
                  None \<Rightarrow> Inl MissingFmt
                | Some f \<Rightarrow>
                    if audioFormat f \<noteq> 1 then Inl NotPCM
                    else if bitsPerSample f \<noteq> 8 \<and> bitsPerSample f \<noteq> 16
                      then Inl (UnsupportedBitDepth (bitsPerSample f))
                    else if dOff < 0 \<or> dLen \<le> 0 then Inl MissingData
                    else Inr \<lparr>h_dataOffset = nat dOff, h_dataLength = nat dLen, h_fmt = f\<rparr>))"

definition processAudioSimple :: "bytes \<Rightarrow> error + bytes" where
  "processAudioSimple inputBuf =
     (case parseWavHeader inputBuf of Inl e \<Rightarrow> Inl e | Inr header \<Rightarrow> Inr inputBuf)"

text \<open>
  The audio branch of \<open>handleEmbed\<close> once the payload is built: validate, parse again,
  embed. It returns the buffer as the branch leaves it.
\<close>

definition embedAudioCover :: "bytes \<Rightarrow> bytes \<Rightarrow> (error + nat) \<times> bytes" where
  "embedAudioCover cover payload =
     (case processAudioSimple cover of
        Inl e \<Rightarrow> (Inl e, cover)
      | Inr wavBuf \<Rightarrow>
          (case parseWavHeader wavBuf of
             Inl e \<Rightarrow> (Inl e, wavBuf)
           | Inr h \<Rightarrow>
               embedLSB_WavPCM wavBuf payload (h_dataOffset h) (h_dataLength h)
                 (bitsPerSample (h_fmt h))))"


definition wav24 :: bytes where
  "wav24 = ascii ''RIFF'' @ [68, 0, 0, 0] @ ascii ''WAVEfmt '' @ [16, 0, 0, 0]
     @ [1, 0, 1, 0, 0x40, 0x1F, 0, 0, 0xC0, 0x5D, 0, 0, 3, 0, 24, 0]
     @ ascii ''data'' @ [32, 0, 0, 0] @ replicate 32 0xFF"

section \<open>Container, envelope and the Node library\<close>

text \<open>
  The metadata object \<open>{ v, items: [{ t, name, mime, len }] }\<close>. \<open>meta_items\<close> is
  \<open>None\<close> when the object has no \<open>items\<close>; a \<open>len\<close> may be any integer.
\<close>

record meta_item =
  m_t :: jsstring
  m_name :: jsstring
  m_mime :: jsstring
  m_len :: int

record meta =
  meta_v :: int
  meta_items :: "meta_item list option"

text \<open>
  What the server calls in Node's library is a parameter of the model:
  \<^item> \<open>utf8_encode s\<close> is \<open>Buffer.from(s, "utf8")\<close>, \<open>utf8_decode b\<close> is
    \<open>b.toString("utf8")\<close>, \<open>base64_encode b\<close> is \<open>b.toString("base64")\<close>;
  \<^item> \<open>json_stringify m\<close> is \<open>Buffer.from(JSON.stringify(m), "utf8")\<close>;
    \<open>json_parse b\<close> is \<open>JSON.parse(b.toString("utf8"))\<close>, \<open>None\<close> when it throws.
    The parsed value is taken to have the shape of \<open>meta\<close>; other JSON values are outside
    the model;
  \<^item> \<open>scrypt password salt\<close> is \<open>crypto.scryptSync(password, salt, 32)\<close>;
  \<^item> \<open>gcm_encrypt key iv buf\<close> is the ciphertext and the tag of \<open>aes-256-gcm\<close>;
    \<open>gcm_decrypt key iv tag enc\<close> is \<open>None\<close> when \<open>decipher.final()\<close> throws.
\<close>

record node_lib =
  utf8_encode :: "jsstring \<Rightarrow> bytes"
  utf8_decode :: "bytes \<Rightarrow> jsstring"
  base64_encode :: "bytes \<Rightarrow> jsstring"
  json_stringify :: "meta \<Rightarrow> bytes"
  json_parse :: "bytes \<Rightarrow> meta option"
  scrypt :: "jsstring \<Rightarrow> bytes \<Rightarrow> bytes"
  gcm_encrypt :: "bytes \<Rightarrow> bytes \<Rightarrow> bytes \<Rightarrow> bytes \<times> bytes"
  gcm_decrypt :: "bytes \<Rightarrow> bytes \<Rightarrow> bytes \<Rightarrow> bytes \<Rightarrow> bytes option"

text \<open>
  \<open>String.prototype.trim\<close> strips the code units that ECMAScript calls WhiteSpace or
  LineTerminator from both ends.
\<close>

definition isWhiteSpace :: "16 word \<Rightarrow> bool" where
  "isWhiteSpace c \<longleftrightarrow>
     c = 0x9 \<or> c = 0xA \<or> c = 0xB \<or> c = 0xC \<or> c = 0xD \<or> c = 0x20 \<or> c = 0xA0 \<or> c = 0x1680
     \<or> (0x2000 \<le> c \<and> c \<le> 0x200A) \<or> c = 0x2028 \<or> c = 0x2029 \<or> c = 0x202F
     \<or> c = 0x205F \<or> c = 0x3000 \<or> c = 0xFEFF"

definition trim :: "jsstring \<Rightarrow> jsstring" where
  "trim s = rev (dropWhile isWhiteSpace (rev (dropWhile isWhiteSpace s)))"

record secret_file =
  buffer :: bytes
  originalname :: jsstring
  mimetype :: jsstring

record item =
  it_t :: jsstring
  it_name :: jsstring
  it_mime :: jsstring
  it_len :: int
  it_data :: bytes

text \<open>The \<open>items\<close> array that \<open>packPayload\<close> builds; an empty string is falsy.\<close>

definition secretItems :: "node_lib \<Rightarrow> jsstring \<Rightarrow> secret_file option \<Rightarrow> item list" where
  "secretItems L secretText secretFile =
     (if secretText \<noteq> [] \<and> trim secretText \<noteq> []
      then [\<lparr>it_t = js ''text'', it_name = js ''message.txt'', it_mime = js ''text/plain'',
             it_len = int (length (utf8_encode L secretText)),
             it_data = utf8_encode L secretText\<rparr>]
      else [])
     @ (case secretFile of
          None \<Rightarrow> []
        | Some f \<Rightarrow>
            [\<lparr>it_t = js ''file'',
              it_name = (if originalname f \<noteq> [] then originalname f else js ''secret''),
              it_mime = (if mimetype f \<noteq> [] then mimetype f
                         else js ''application/octet-stream''),
              it_len = int (length (buffer f)),
              it_data = buffer f\<rparr>])"

definition metaOf :: "item list \<Rightarrow> meta" where
  "metaOf items =
     \<lparr>meta_v = 1,
      meta_items = Some (map (\<lambda>x. \<lparr>m_t = it_t x, m_name = it_name x, m_mime = it_mime x,
                                     m_len = it_len x\<rparr>) items)\<rparr>"

definition packPayload :: "node_lib \<Rightarrow> jsstring \<Rightarrow> secret_file option \<Rightarrow> error + bytes" where
  "packPayload L secretText secretFile =
     (let items = secretItems L secretText secretFile
      in if length items = 0 then Inl NoSecretData
         else let metaBuf = json_stringify L (metaOf items);
                  dataConcat = concat (map it_data items)
              in Inr (ascii ''STEGv1'' @ u32 (length metaBuf) @ metaBuf @ dataConcat))"

text \<open>
  \<open>salt\<close> and \<open>iv\<close> are what \<open>crypto.randomBytes(16)\<close> and \<open>crypto.randomBytes(12)\<close>
  return in this call.
\<close>

definition encryptIfNeeded :: "node_lib \<Rightarrow> bytes \<Rightarrow> jsstring \<Rightarrow> bytes \<Rightarrow> bytes \<Rightarrow> bytes" where
  "encryptIfNeeded L buf password salt iv =
     (if password = [] then buf
      else let key = scrypt L password salt;
               (enc, tag) = gcm_encrypt L key iv buf
           in ascii ''ENCv1'' @ salt @ iv @ tag @ u32 (length enc) @ enc)"

text \<open>
  \<open>buf.slice(start, end)\<close> as Node defines it: an offset below zero counts from the end,
  both offsets are clamped to the buffer, and an empty range gives the empty buffer.
\<close>

definition adjustOffset :: "int \<Rightarrow> nat \<Rightarrow> nat" where
  "adjustOffset offset n =
     (if offset < 0 then (if offset + int n > 0 then nat (offset + int n) else 0)
      else if offset < int n then nat offset
      else n)"

definition slice :: "bytes \<Rightarrow> int \<Rightarrow> int \<Rightarrow> bytes" where
  "slice buf start end =
     (let s = adjustOffset start (length buf);
          e = adjustOffset end (length buf)
      in if e > s then take (e - s) (drop s buf) else [])"

text \<open>\<open>(meta.items || []).reduce((s, it) => s + (it.len || 0), 0)\<close>\<close>

definition dataTotalOf :: "meta \<Rightarrow> int" where
  "dataTotalOf m =
     foldl (\<lambda>s x. s + (if m_len x \<noteq> 0 then m_len x else 0)) 0
       (case meta_items m of Some xs \<Rightarrow> xs | None \<Rightarrow> [])"

definition decryptEnvelope :: "node_lib \<Rightarrow> bytes \<Rightarrow> jsstring \<Rightarrow> error + bytes" where
  "decryptEnvelope L combined password =
     (if slice combined 0 5 \<noteq> ascii ''ENCv1'' then Inl InvalidEncHeader
      else
        let salt = slice combined 5 21;
            iv = slice combined 21 33;
            tag = slice combined 33 49
        in bindE (readU32BE (slice combined 49 53)) (\<lambda>len.
             let enc2 = slice combined 53 (53 + int len)
             in if password = [] then Inl PasswordRequired
                else (case gcm_decrypt L (scrypt L password salt) iv tag enc2 of
                        None \<Rightarrow> Inl AuthFailed
                      | Some dec \<Rightarrow> Inr dec)))"

definition extractData :: "node_lib \<Rightarrow> reader \<Rightarrow> jsstring \<Rightarrow> error + bytes" where
  "extractData L r password =
     bindE (readBytes r 5) (\<lambda>(first5, r1).
       if first5 = ascii ''ENCv1'' then
         bindE (readBytes r1 48) (\<lambda>(headerRest, r2).
         bindE (readU32BE (slice headerRest 44 48)) (\<lambda>encLen.
         bindE (readBytes r2 (int encLen)) (\<lambda>(enc, r3).
           decryptEnvelope L (first5 @ headerRest @ enc) password)))
       else
         bindE (readBytes r1 1) (\<lambda>(sixth, r2).
           let magic = first5 @ sixth in
           if magic \<noteq> ascii ''STEGv1'' then Inl NoValidPayload
           else
             bindE (readBytes r2 4) (\<lambda>(metaLenBuf, r3).
             bindE (readU32BE metaLenBuf) (\<lambda>metaLen.
             bindE (readBytes r3 (int metaLen)) (\<lambda>(metaBuf, r4).
               (case json_parse L metaBuf of
                  None \<Rightarrow> Inl CorruptedMetadata
                | Some m \<Rightarrow>
                    bindE (readBytes r4 (dataTotalOf m)) (\<lambda>(dataBuf, r5).
                      Inr (magic @ metaLenBuf @ metaBuf @ dataBuf))))))))"

text \<open>
  The items of the response: \<open>{ type: "text", name, mime, text }\<close> and
  \<open>{ type: "file", name, mime, base64 }\<close>.
\<close>

datatype out_item =
    OutText jsstring jsstring jsstring
  | OutFile jsstring jsstring jsstring

fun out_type :: "out_item \<Rightarrow> jsstring" where
  "out_type (OutText n m x) = js ''text''"
| "out_type (OutFile n m x) = js ''file''"

text \<open>The loop \<open>for (const m of meta.items || [])\<close> with its running offset \<open>off\<close>.\<close>

fun parseItems :: "node_lib \<Rightarrow> bytes \<Rightarrow> int \<Rightarrow> meta_item list \<Rightarrow> out_item list" where
  "parseItems L containerBuf off [] = []"
| "parseItems L containerBuf off (m # ms) =
     (let data = slice containerBuf off (off + m_len m)
      in (if m_t m = js ''text'' \<or> m_mime m = js ''text/plain''
          then OutText (m_name m) (m_mime m) (utf8_decode L data)
          else OutFile (m_name m) (m_mime m) (base64_encode L data))
         # parseItems L containerBuf (off + m_len m) ms)"

definition parseContainer :: "node_lib \<Rightarrow> bytes \<Rightarrow> error + out_item list" where
  "parseContainer L containerBuf =
     (if slice containerBuf 0 6 \<noteq> ascii ''STEGv1'' then Inl MagicMismatch
      else
        bindE (readU32BE (slice containerBuf 6 10)) (\<lambda>metaLen.
          let metaBuf = slice containerBuf 10 (10 + int metaLen);
              off = 10 + int metaLen
          in (case json_parse L metaBuf of
                None \<Rightarrow> Inl CorruptedMetadata
              | Some m \<Rightarrow>
                  Inr (parseItems L containerBuf off
                         (case meta_items m of Some xs \<Rightarrow> xs | None \<Rightarrow> [])))))"

section \<open>The request handlers\<close>

text \<open>
  \<open>handleEmbed\<close> and \<open>handleExtract\<close> without the HTTP layer and without the image codec:
  the image branches take and return the raw RGBA buffer that \<open>sharp\<close> decodes and
  encodes, with its width and height.
\<close>

definition buildPayload ::
  "node_lib \<Rightarrow> jsstring \<Rightarrow> secret_file option \<Rightarrow> jsstring \<Rightarrow> bytes \<Rightarrow> bytes \<Rightarrow> error + bytes" where
  "buildPayload L secretText secretFile password salt iv =
     (case packPayload L secretText secretFile of
        Inl e \<Rightarrow> Inl e
      | Inr packed \<Rightarrow> Inr (encryptIfNeeded L packed password salt iv))"

definition handleEmbedImage ::
  "node_lib \<Rightarrow> jsstring \<Rightarrow> secret_file option \<Rightarrow> jsstring \<Rightarrow> bytes \<Rightarrow> bytes
     \<Rightarrow> bytes \<Rightarrow> nat \<Rightarrow> nat \<Rightarrow> error + bytes" where
  "handleEmbedImage L secretText secretFile password salt iv data width height =
     (if secretText = [] \<and> secretFile = None then Inl SecretRequired
      else case buildPayload L secretText secretFile password salt iv of
        Inl e \<Rightarrow> Inl e
      | Inr payload \<Rightarrow>
          (case embedLSB_RGBA data width height payload of
             (Inl e, buf) \<Rightarrow> Inl e
           | (Inr used, buf) \<Rightarrow> Inr buf))"

definition handleEmbedAudio ::
  "node_lib \<Rightarrow> jsstring \<Rightarrow> secret_file option \<Rightarrow> jsstring \<Rightarrow> bytes \<Rightarrow> bytes
     \<Rightarrow> bytes \<Rightarrow> error + bytes" where
  "handleEmbedAudio L secretText secretFile password salt iv cover =
     (if secretText = [] \<and> secretFile = None then Inl SecretRequired
      else case buildPayload L secretText secretFile password salt iv of
        Inl e \<Rightarrow> Inl e
      | Inr payload \<Rightarrow>
          (case embedAudioCover cover payload of
             (Inl e, buf) \<Rightarrow> Inl e
           | (Inr used, buf) \<Rightarrow> Inr buf))"


definition handleExtractAudio :: "node_lib \<Rightarrow> bytes \<Rightarrow> jsstring \<Rightarrow> error + out_item list" where
  "handleExtractAudio L wav password =
     (case parseWavHeader wav of
        Inl e \<Rightarrow> Inl e
      | Inr h \<Rightarrow>
          (let bytesPerSample = bitsPerSample (h_fmt h) div 8;
               numSamples = h_dataLength h div bytesPerSample
           in case extractData L (audioReader wav (h_dataOffset h) bytesPerSample numSamples)
                     password of
                Inl e \<Rightarrow> Inl e
              | Inr containerBuf \<Rightarrow> parseContainer L containerBuf))"

section \<open>An instance of the library to run the model on\<close>

text \<open>
  The theorems below hold for every library \<open>L\<close>. To run the model on concrete inputs
  this section gives one instance. \<open>sample_utf8\<close> is UTF-8 (a surrogate pair is one code
  point, a lone surrogate becomes U+FFFD); \<open>sample_decode\<close> is right for bytes below
  \<open>0x80\<close> and shows every other byte as U+FFFD; \<open>sample_base64\<close> is base64 with padding;
  \<open>sample_stringify\<close> writes the metadata as \<open>JSON.stringify\<close> does for strings without
  lone surrogates; \<open>sample_parse\<close> knows the documents that \<open>sample_stringify\<close> writes for
  a given list of metadata objects and rejects every other input. The key derivation
  and the cipher are stand-ins with the interface of \<open>scrypt\<close> and \<open>aes-256-gcm\<close>: a
  32-byte key, a ciphertext as long as the plaintext, a 16-byte tag that decryption
  checks.
\<close>

fun sample_utf8 :: "jsstring \<Rightarrow> bytes" where
  "sample_utf8 [] = []"
| "sample_utf8 (c # cs) =
     (if c < 0x80 then ucast c # sample_utf8 cs
      else if c < 0x800 then
        [0xC0 OR ucast (drop_bit 6 c), 0x80 OR ucast (c AND 0x3F)] @ sample_utf8 cs
      else if 0xD800 \<le> c \<and> c < 0xDC00 then
        (case cs of
           [] \<Rightarrow> [0xEF, 0xBF, 0xBD]
         | d # ds \<Rightarrow>
             if 0xDC00 \<le> d \<and> d < 0xE000 then
               (let hi = c AND 0x3FF; lo = d AND 0x3FF; u = drop_bit 6 hi + 1
                in [0xF0 OR ucast (drop_bit 2 u),
                    0x80 OR ucast (push_bit 4 (u AND 3)) OR ucast (drop_bit 2 (hi AND 0x3F)),
                    0x80 OR ucast (push_bit 4 (hi AND 3)) OR ucast (drop_bit 6 lo),
                    0x80 OR ucast (lo AND 0x3F)]) @ sample_utf8 ds
             else [0xEF, 0xBF, 0xBD] @ sample_utf8 cs)
      else if 0xDC00 \<le> c \<and> c < 0xE000 then [0xEF, 0xBF, 0xBD] @ sample_utf8 cs
      else [0xE0 OR ucast (drop_bit 12 c), 0x80 OR ucast (drop_bit 6 c AND 0x3F),
            0x80 OR ucast (c AND 0x3F)] @ sample_utf8 cs)"

definition sample_decode :: "bytes \<Rightarrow> jsstring" where
  "sample_decode b = map (\<lambda>x. if x < 0x80 then ucast x else 0xFFFD) b"

definition b64 :: "byte \<Rightarrow> 16 word" where
  "b64 x = js ''ABCDEFGHIJKLMNOPQRSTUVWXYZabcdefghijklmnopqrstuvwxyz0123456789+/'' ! unat (x AND 63)"

fun sample_base64 :: "bytes \<Rightarrow> jsstring" where
  "sample_base64 [] = []"
| "sample_base64 [a] = [b64 (drop_bit 2 a), b64 (push_bit 4 (a AND 3)), 0x3D, 0x3D]"
| "sample_base64 [a, b] =
     [b64 (drop_bit 2 a), b64 (push_bit 4 (a AND 3) OR drop_bit 4 b),
      b64 (push_bit 2 (b AND 15)), 0x3D]"
| "sample_base64 (a # b # c # rest) =
     [b64 (drop_bit 2 a), b64 (push_bit 4 (a AND 3) OR drop_bit 4 b),
      b64 (push_bit 2 (b AND 15) OR drop_bit 6 c), b64 c] @ sample_base64 rest"

fun showNat :: "nat \<Rightarrow> jsstring" where
  "showNat n = (if n < 10 then [48 + of_nat n] else showNat (n div 10) @ [48 + of_nat (n mod 10)])"

declare showNat.simps [simp del]

definition showInt :: "int \<Rightarrow> jsstring" where
  "showInt i = (if i < 0 then 0x2D # showNat (nat (- i)) else showNat (nat i))"

definition hexDigit :: "16 word \<Rightarrow> 16 word" where
  "hexDigit x = js ''0123456789abcdef'' ! unat (x AND 15)"

definition quoteChar :: "16 word \<Rightarrow> jsstring" where
  "quoteChar c =
     (if c = 0x22 then [0x5C, 0x22]
      else if c = 0x5C then [0x5C, 0x5C]
      else if c = 0x08 then [0x5C, 0x62]
      else if c = 0x09 then [0x5C, 0x74]
      else if c = 0x0A then [0x5C, 0x6E]
      else if c = 0x0C then [0x5C, 0x66]
      else if c = 0x0D then [0x5C, 0x72]
      else if c < 0x20 then [0x5C, 0x75, 0x30, 0x30, hexDigit (drop_bit 4 c), hexDigit c]
      else [c])"

definition quote :: "jsstring \<Rightarrow> jsstring" where
  "quote s = [0x22] @ concat (map quoteChar s) @ [0x22]"

fun commaSep :: "jsstring list \<Rightarrow> jsstring" where
  "commaSep [] = []"
| "commaSep [x] = x"
| "commaSep (x # y # ys) = x @ [0x2C] @ commaSep (y # ys)"

definition stringifyItem :: "meta_item \<Rightarrow> jsstring" where
  "stringifyItem m =
     [0x7B] @ quote (js ''t'') @ [0x3A] @ quote (m_t m)
     @ [0x2C] @ quote (js ''name'') @ [0x3A] @ quote (m_name m)
     @ [0x2C] @ quote (js ''mime'') @ [0x3A] @ quote (m_mime m)
     @ [0x2C] @ quote (js ''len'') @ [0x3A] @ showInt (m_len m) @ [0x7D]"

definition sample_stringify :: "meta \<Rightarrow> bytes" where
  "sample_stringify m =
     sample_utf8
       ([0x7B] @ quote (js ''v'') @ [0x3A] @ showInt (meta_v m)
        @ (case meta_items m of
             None \<Rightarrow> []
           | Some xs \<Rightarrow>
               [0x2C] @ quote (js ''items'') @ [0x3A, 0x5B]
               @ commaSep (map stringifyItem xs) @ [0x5D])
        @ [0x7D])"

definition sample_parse :: "meta list \<Rightarrow> bytes \<Rightarrow> meta option" where
  "sample_parse known b = find (\<lambda>m. sample_stringify m = b) known"

definition sample_scrypt :: "jsstring \<Rightarrow> bytes \<Rightarrow> bytes" where
  "sample_scrypt password salt = take 32 (sample_utf8 password @ salt @ replicate 32 0)"

definition sample_tag :: "bytes \<Rightarrow> bytes \<Rightarrow> bytes \<Rightarrow> bytes" where
  "sample_tag key iv enc = replicate 16 (foldr (XOR) (key @ iv @ enc) 0x5A)"

definition sample_gcm_encrypt :: "bytes \<Rightarrow> bytes \<Rightarrow> bytes \<Rightarrow> bytes \<times> bytes" where
  "sample_gcm_encrypt key iv buf =
     (let enc = map (\<lambda>x. x XOR (key ! 0) XOR (iv ! 0)) buf in (enc, sample_tag key iv enc))"

definition sample_gcm_decrypt :: "bytes \<Rightarrow> bytes \<Rightarrow> bytes \<Rightarrow> bytes \<Rightarrow> bytes option" where
  "sample_gcm_decrypt key iv tag enc =
     (if tag = sample_tag key iv enc then Some (map (\<lambda>x. x XOR (key ! 0) XOR (iv ! 0)) enc)
      else None)"

definition sampleLib :: "meta list \<Rightarrow> node_lib" where
  "sampleLib known =
     \<lparr>utf8_encode = sample_utf8, utf8_decode = sample_decode, base64_encode = sample_base64,
      json_stringify = sample_stringify, json_parse = sample_parse known,
      scrypt = sample_scrypt, gcm_encrypt = sample_gcm_encrypt,
      gcm_decrypt = sample_gcm_decrypt\<rparr>"

section \<open>The embedding loops in closed form\<close>

lemma embedByte_snd: "snd (embedByte addr buf bi x k) = bi + k"
  by (induction k arbitrary: buf bi) auto

lemma embedByte_length: "length (fst (embedByte addr buf bi x k)) = length buf"
  by (induction k arbitrary: buf bi) auto

lemma embedByte_other:
  "(\<And>m. m < k \<Longrightarrow> addr (bi + m) \<noteq> j) \<Longrightarrow> fst (embedByte addr buf bi x k) ! j = buf ! j"
proof (induction k arbitrary: buf bi)
  case 0
  then show ?case by simp
next
  case (Suc k)
  have here: "addr bi \<noteq> j" using Suc.prems [of 0] by simp
  have rest: "\<And>m. m < k \<Longrightarrow> addr (Suc bi + m) \<noteq> j" using Suc.prems [of "Suc _"] by simp
  show ?case using Suc.IH [OF rest] here by simp
qed

lemma embedByte_written:
  assumes "inj_on addr {bi ..< bi + k}" and "m < k" and "addr (bi + m) < length buf"
  shows "fst (embedByte addr buf bi x k) ! addr (bi + m)
         = setLSB (buf ! addr (bi + m)) (payloadBit x (k - 1 - m))"
  using assms
proof (induction k arbitrary: buf bi m)
  case 0
  then show ?case by simp
next
  case (Suc k)
  let ?buf' = "buf[addr bi := setLSB (buf ! addr bi) (payloadBit x k)]"
  have inj': "inj_on addr {Suc bi ..< Suc bi + k}"
    by (rule inj_on_subset [OF Suc.prems(1)]) auto
  show ?case
  proof (cases m)
    case 0
    have "\<And>m'. m' < k \<Longrightarrow> addr (Suc bi + m') \<noteq> addr bi"
    proof
      fix m' assume "m' < k" and eq: "addr (Suc bi + m') = addr bi"
      then have "Suc bi + m' = bi"
        using Suc.prems(1) by (auto dest!: inj_onD [where x = "Suc bi + m'" and y = bi])
      then show False by simp
    qed
    then have "fst (embedByte addr ?buf' (Suc bi) x k) ! addr bi = ?buf' ! addr bi"
      by (rule embedByte_other)
    with 0 Suc.prems(3) show ?thesis by simp
  next
    case (Suc m')
    have ne: "addr bi \<noteq> addr (Suc bi + m')"
    proof
      assume "addr bi = addr (Suc bi + m')"
      then have "bi = Suc bi + m'"
        using Suc.prems(1,2) Suc by (auto dest!: inj_onD [where x = bi and y = "Suc bi + m'"])
      then show False by simp
    qed
    have "fst (embedByte addr ?buf' (Suc bi) x k) ! addr (Suc bi + m')
          = setLSB (?buf' ! addr (Suc bi + m')) (payloadBit x (k - 1 - m'))"
      using Suc.prems(2,3) Suc by (intro Suc.IH [OF inj']) auto
    with ne Suc show ?thesis by simp
  qed
qed

lemma embedLoop_snd: "snd (embedLoop addr buf bi xs) = bi + 8 * length xs"
proof (induction xs arbitrary: buf bi)
  case Nil
  then show ?case by simp
next
  case (Cons x xs)
  obtain b' i' where e: "embedByte addr buf bi x 8 = (b', i')" by (cases "embedByte addr buf bi x 8")
  have "i' = bi + 8" using embedByte_snd [of addr buf bi x 8] e by simp
  then show ?case using Cons.IH [of b' i'] e by simp
qed

lemma embedLoop_Cons:
  "embedLoop addr buf bi (x # xs) = embedLoop addr (fst (embedByte addr buf bi x 8)) (bi + 8) xs"
proof -
  obtain b' i' where e: "embedByte addr buf bi x 8 = (b', i')" by (cases "embedByte addr buf bi x 8")
  have "i' = bi + 8" using embedByte_snd [of addr buf bi x 8] e by simp
  then show ?thesis using e by simp
qed

declare embedLoop.simps(2) [simp del]

lemma embedLoop_length: "length (fst (embedLoop addr buf bi xs)) = length buf"
  by (induction xs arbitrary: buf bi) (simp_all add: embedLoop_Cons embedByte_length)

lemma embedLoop_other:
  "(\<And>i. i < 8 * length xs \<Longrightarrow> addr (bi + i) \<noteq> j) \<Longrightarrow> fst (embedLoop addr buf bi xs) ! j = buf ! j"
proof (induction xs arbitrary: buf bi)
  case Nil
  then show ?case by simp
next
  case (Cons x xs)
  have first: "\<And>m. m < 8 \<Longrightarrow> addr (bi + m) \<noteq> j" using Cons.prems by simp
  have rest: "\<And>i. i < 8 * length xs \<Longrightarrow> addr (bi + 8 + i) \<noteq> j"
  proof -
    fix i assume "i < 8 * length xs"
    then have "8 + i < 8 * length (x # xs)" by simp
    from Cons.prems [OF this] show "addr (bi + 8 + i) \<noteq> j" by (simp add: add.assoc)
  qed
  show ?case
    using Cons.IH [OF rest] embedByte_other [of 8 addr bi j, OF first] by (simp add: embedLoop_Cons)
qed

lemma bitAt_Cons_low: "i < 8 \<Longrightarrow> bitAt (x # xs) i = payloadBit x (7 - i)"
  by (simp add: bitAt_def)

lemma bitAt_Cons_high: "bitAt (x # xs) (8 + i) = bitAt xs i"
proof -
  have "(8 + i) div 8 = Suc (i div 8)" by arith
  then show ?thesis by (simp add: bitAt_def)
qed

lemma embedLoop_written:
  assumes "inj_on addr {bi ..< bi + 8 * length xs}" and "i < 8 * length xs"
    and "addr (bi + i) < length buf"
  shows "fst (embedLoop addr buf bi xs) ! addr (bi + i) = setLSB (buf ! addr (bi + i)) (bitAt xs i)"
  using assms
proof (induction xs arbitrary: buf bi i)
  case Nil
  then show ?case by simp
next
  case (Cons x xs)
  let ?buf' = "fst (embedByte addr buf bi x 8)"
  have inj: "inj_on addr {bi ..< bi + 8 + 8 * length xs}" using Cons.prems(1) by (simp add: add.assoc)
  have sep: "\<And>a b. a < 8 + 8 * length xs \<Longrightarrow> b < 8 + 8 * length xs \<Longrightarrow> a \<noteq> b
                \<Longrightarrow> addr (bi + a) \<noteq> addr (bi + b)"
  proof
    fix a b assume "a < 8 + 8 * length xs" "b < 8 + 8 * length xs" "a \<noteq> b"
      and eq: "addr (bi + a) = addr (bi + b)"
    then have "bi + a = bi + b" by (intro inj_onD [OF inj eq]) auto
    with \<open>a \<noteq> b\<close> show False by simp
  qed
  show ?case
  proof (cases "i < 8")
    case True
    have "fst (embedLoop addr ?buf' (bi + 8) xs) ! addr (bi + i) = ?buf' ! addr (bi + i)"
    proof (rule embedLoop_other)
      fix i' assume "i' < 8 * length xs"
      then show "addr (bi + 8 + i') \<noteq> addr (bi + i)"
        using sep [of "8 + i'" i] True by (simp add: add.assoc)
    qed
    moreover have "?buf' ! addr (bi + i) = setLSB (buf ! addr (bi + i)) (payloadBit x (8 - 1 - i))"
      by (rule embedByte_written) (use True Cons.prems(3) inj in \<open>auto intro: inj_on_subset\<close>)
    ultimately show ?thesis using True by (simp add: embedLoop_Cons bitAt_Cons_low)
  next
    case False
    then obtain i' where i': "i = 8 + i'" by (metis le_add_diff_inverse not_less)
    have lt: "i' < 8 * length xs" using Cons.prems(2) i' by simp
    have keep: "?buf' ! addr (bi + 8 + i') = buf ! addr (bi + 8 + i')"
    proof (rule embedByte_other)
      fix m :: nat assume "m < 8"
      then show "addr (bi + m) \<noteq> addr (bi + 8 + i')"
        using sep [of m "8 + i'"] lt by (simp add: add.assoc)
    qed
    have inj': "inj_on addr {bi + 8 ..< bi + 8 + 8 * length xs}"
      by (rule inj_on_subset [OF inj]) auto
    have "fst (embedLoop addr ?buf' (bi + 8) xs) ! addr (bi + 8 + i')
          = setLSB (?buf' ! addr (bi + 8 + i')) (bitAt xs i')"
      using Cons.prems(3) i' by (intro Cons.IH [OF inj' lt]) (simp add: embedByte_length add.assoc)
    then show ?thesis using keep i' by (simp add: embedLoop_Cons bitAt_Cons_high add.assoc)
  qed
qed

lemma bit_lsbAt: "bit (lsbAt buf k) n \<longleftrightarrow> n = 0 \<and> bit (lsbAt buf k) 0"
  by (auto simp: lsbAt_def bit_simps)

lemma bit_payloadBit: "bit (payloadBit x b) n \<longleftrightarrow> n = 0 \<and> bit x b"
  by (auto simp: payloadBit_def bit_simps)

lemma bit_setLSB_0: "bit (setLSB s (payloadBit x b)) 0 \<longleftrightarrow> bit x b"
  by (simp add: setLSB_def bit_simps bit_payloadBit)

lemma mask_fe: "(0xfe :: byte) = NOT 1"
  by simp

lemma bit_setLSB_Suc: "bit (setLSB s (payloadBit x b)) (Suc n) \<longleftrightarrow> bit s (Suc n)"
  unfolding setLSB_def mask_fe
  by (auto simp: bit_simps bit_payloadBit dest: bit_imp_le_length)

lemma readByte_Inl:
  "bitIdx r \<le> capacityBits r \<Longrightarrow> bitIdx r + k > capacityBits r
     \<Longrightarrow> readByte r acc k = Inl (outOfCapacity r)"
proof (induction k arbitrary: r acc)
  case 0
  then show ?case by simp
next
  case (Suc k)
  show ?case
  proof (cases "bitIdx r \<ge> capacityBits r")
    case True
    then show ?thesis by simp
  next
    case False
    then show ?thesis using Suc.IH [of "r\<lparr>bitIdx := bitIdx r + 1\<rparr>"] Suc.prems by simp
  qed
qed

lemma readByte_Inr:
  assumes "bitIdx r + k \<le> capacityBits r" and "\<And>n. n < k \<Longrightarrow> \<not> bit acc n"
    and "k \<le> 8"
  shows "\<exists>x. readByte r acc k = Inr (x, r\<lparr>bitIdx := bitIdx r + k\<rparr>)
           \<and> (\<forall>n. bit x n \<longleftrightarrow>
                 (if n < k then bit (lsbAt (rbuf r) (raddr r (bitIdx r + (k - 1 - n)))) 0
                  else bit acc n))"
  using assms
proof (induction k arbitrary: r acc)
  case 0
  then show ?case by simp
next
  case (Suc k)
  let ?l = "lsbAt (rbuf r) (raddr r (bitIdx r))"
  let ?acc = "acc OR push_bit k ?l"
  let ?r = "r\<lparr>bitIdx := bitIdx r + 1\<rparr>"
  have cap: "\<not> bitIdx r \<ge> capacityBits r" using Suc.prems(1) by simp
  have low: "\<And>n. n < k \<Longrightarrow> \<not> bit ?acc n"
    using Suc.prems(2) by (simp add: bit_simps)
  have "bitIdx ?r + k \<le> capacityBits ?r" using Suc.prems(1) by simp
  moreover have "k \<le> 8" using Suc.prems(3) by simp
  ultimately obtain x where
    x: "readByte ?r ?acc k = Inr (x, ?r\<lparr>bitIdx := bitIdx ?r + k\<rparr>)"
    and bits: "\<And>n. bit x n \<longleftrightarrow>
                 (if n < k then bit (lsbAt (rbuf ?r) (raddr ?r (bitIdx ?r + (k - 1 - n)))) 0
                  else bit ?acc n)"
    using Suc.IH [of ?r ?acc] low by blast
  have res: "readByte r acc (Suc k) = Inr (x, r\<lparr>bitIdx := bitIdx r + Suc k\<rparr>)"
    using cap x by simp
  have "bit x n \<longleftrightarrow>
          (if n < Suc k then bit (lsbAt (rbuf r) (raddr r (bitIdx r + (Suc k - 1 - n)))) 0
           else bit acc n)" for n
  proof (cases "n < k")
    case True
    then have "Suc (bitIdx r + (k - 1 - n)) = bitIdx r + (k - n)" by simp
    with True show ?thesis using bits [of n] by simp
  next
    case False
    show ?thesis
    proof (cases "n = k")
      case True
      have "\<not> bit acc k" using Suc.prems(2) [of k] by simp
      moreover have "bit (push_bit k ?l) k \<longleftrightarrow> bit ?l 0"
        using Suc.prems(3) by (simp add: bit_simps possible_bit_word)
      ultimately show ?thesis using True bits [of k] by (simp add: bit_simps)
    next
      case ne: False
      with False have gt: "k < n" by simp
      have "\<not> bit (push_bit k ?l) n"
        using gt bit_lsbAt [of "rbuf r" "raddr r (bitIdx r)" "n - k"]
        by (simp add: bit_simps)
      then show ?thesis using gt bits [of n] by (auto simp: bit_simps)
    qed
  qed
  with res show ?case by blast
qed

lemma readByte_fields:
  "readByte r acc k = Inr (x, r') \<Longrightarrow>
     rbuf r' = rbuf r \<and> raddr r' = raddr r \<and> capacityBits r' = capacityBits r
     \<and> outOfCapacity r' = outOfCapacity r"
  by (induction k arbitrary: r acc) (auto split: if_splits)

lemma readBytesLoop_Inl:
  "bitIdx r \<le> capacityBits r \<Longrightarrow> bitIdx r + 8 * n > capacityBits r
     \<Longrightarrow> readBytesLoop r n = Inl (outOfCapacity r)"
proof (induction n arbitrary: r)
  case 0
  then show ?case by simp
next
  case (Suc n)
  show ?case
  proof (cases "bitIdx r + 8 > capacityBits r")
    case True
    then show ?thesis using readByte_Inl [OF Suc.prems(1), of 8 0] by simp
  next
    case False
    then have le: "bitIdx r + 8 \<le> capacityBits r" by simp
    from readByte_Inr [OF le, of 0] obtain x where
      x: "readByte r 0 8 = Inr (x, r\<lparr>bitIdx := bitIdx r + 8\<rparr>)" by auto
    let ?r = "r\<lparr>bitIdx := bitIdx r + 8\<rparr>"
    have "readBytesLoop ?r n = Inl (outOfCapacity ?r)"
      using le Suc.prems(2) by (intro Suc.IH) auto
    then show ?thesis using x by simp
  qed
qed

lemma readBytesLoop_Inr:
  assumes "bitIdx r + 8 * n \<le> capacityBits r"
  shows "\<exists>out. readBytesLoop r n = Inr (out, r\<lparr>bitIdx := bitIdx r + 8 * n\<rparr>)
           \<and> length out = n
           \<and> (\<forall>k < n. \<forall>m < 8. bit (out ! k) (7 - m) \<longleftrightarrow> carrierBit r (bitIdx r + 8 * k + m))"
  using assms
proof (induction n arbitrary: r)
  case 0
  then show ?case by simp
next
  case (Suc n)
  let ?r = "r\<lparr>bitIdx := bitIdx r + 8\<rparr>"
  have le: "bitIdx r + 8 \<le> capacityBits r" using Suc.prems by simp
  from readByte_Inr [OF le, of 0] obtain x where
    x: "readByte r 0 8 = Inr (x, ?r)"
    and xb: "\<And>n. bit x n \<longleftrightarrow>
               (if n < 8 then bit (lsbAt (rbuf r) (raddr r (bitIdx r + (8 - 1 - n)))) 0
                else bit (0 :: byte) n)"
    by auto
  have "bitIdx ?r + 8 * n \<le> capacityBits ?r" using Suc.prems by simp
  from Suc.IH [OF this] obtain out where
    out: "readBytesLoop ?r n = Inr (out, ?r\<lparr>bitIdx := bitIdx ?r + 8 * n\<rparr>)"
    and len: "length out = n"
    and ob: "\<And>k m. k < n \<Longrightarrow> m < 8 \<Longrightarrow>
               bit (out ! k) (7 - m) \<longleftrightarrow> carrierBit ?r (bitIdx ?r + 8 * k + m)"
    by blast
  have res: "readBytesLoop r (Suc n) = Inr (x # out, r\<lparr>bitIdx := bitIdx r + 8 * Suc n\<rparr>)"
    using x out by (simp add: add.assoc)
  have "bit ((x # out) ! k) (7 - m) \<longleftrightarrow> carrierBit r (bitIdx r + 8 * k + m)"
    if "k < Suc n" and "m < 8" for k m
  proof (cases k)
    case 0
    have a: "8 - 1 - (7 - m) = m" using that(2) by arith
    have b: "7 - m < 8" by arith
    show ?thesis using 0 xb [of "7 - m"] a b by (simp add: carrierBit_def)
  next
    case (Suc k')
    then have "k' < n" using that(1) by simp
    from ob [OF this that(2)] show ?thesis
      using Suc by (simp add: carrierBit_def add.assoc)
  qed
  with res len show ?case by auto
qed

lemma bit_bitAt_0: "bit (bitAt P i) 0 \<longleftrightarrow> bit (P ! (i div 8)) (7 - i mod 8)"
  by (simp add: bitAt_def bit_payloadBit)

lemma byte_eqI:
  fixes x y :: byte
  assumes "\<And>m. m < 8 \<Longrightarrow> bit x (7 - m) \<longleftrightarrow> bit y (7 - m)"
  shows "x = y"
proof (rule bit_word_eqI)
  fix n assume "n < LENGTH(8)"
  then have n: "n < 8" by simp
  then have "7 - (7 - n) = n" by simp
  with assms [of "7 - n"] n show "bit x n \<longleftrightarrow> bit y n" by simp
qed

lemma readBytesLoop_payload:
  assumes hold: "holdsPayload r P" and idx: "bitIdx r = 8 * p" and fit: "p + n \<le> length P"
  shows "readBytesLoop r n = Inr (take n (drop p P), r\<lparr>bitIdx := 8 * (p + n)\<rparr>)"
proof -
  have cap: "bitIdx r + 8 * n \<le> capacityBits r"
    using hold idx fit by (simp add: holdsPayload_def)
  from readBytesLoop_Inr [OF cap] obtain out where
    out: "readBytesLoop r n = Inr (out, r\<lparr>bitIdx := bitIdx r + 8 * n\<rparr>)"
    and len: "length out = n"
    and ob: "\<And>k m. k < n \<Longrightarrow> m < 8 \<Longrightarrow>
               bit (out ! k) (7 - m) \<longleftrightarrow> carrierBit r (bitIdx r + 8 * k + m)"
    by blast
  have "out = take n (drop p P)"
  proof (rule nth_equalityI)
    show "length out = length (take n (drop p P))" using len fit by simp
  next
    fix k assume "k < length out"
    then have k: "k < n" using len by simp
    have "out ! k = P ! (p + k)"
    proof (rule byte_eqI)
      fix m :: nat assume m: "m < 8"
      have i: "8 * p + 8 * k + m < 8 * length P" using k fit m by simp
      have d: "(8 * p + 8 * k + m) div 8 = p + k" using m by arith
      have md: "(8 * p + 8 * k + m) mod 8 = m" using m by arith
      have "carrierBit r (8 * p + 8 * k + m) \<longleftrightarrow> bit (bitAt P (8 * p + 8 * k + m)) 0"
        using hold i by (simp add: holdsPayload_def)
      then show "bit (out ! k) (7 - m) \<longleftrightarrow> bit (P ! (p + k)) (7 - m)"
        using ob [OF k m] idx by (simp add: bit_bitAt_0 d md)
    qed
    then show "out ! k = take n (drop p P) ! k" using k fit by simp
  qed
  with out idx show ?thesis by (simp add: distrib_left)
qed

section \<open>Addresses\<close>

lemma mod3_less4: "(i::nat) mod 3 < 4"
proof -
  have "i mod 3 < 3" by simp
  then show ?thesis by linarith
qed

lemma rgbaOffset_div: "rgbaOffset i div 4 = i div 3"
  using mod3_less4 [of i] by (simp add: rgbaOffset_def)

lemma rgbaOffset_mod: "rgbaOffset i mod 4 = i mod 3"
  using mod3_less4 [of i] by (simp add: rgbaOffset_def)

lemma inj_rgbaOffset: "inj_on rgbaOffset A"
proof (rule inj_onI)
  fix x y assume "rgbaOffset x = rgbaOffset y"
  then have "x div 3 = y div 3" and "x mod 3 = y mod 3"
    using rgbaOffset_div [of x] rgbaOffset_div [of y] rgbaOffset_mod [of x] rgbaOffset_mod [of y]
    by simp_all
  then have "3 * (x div 3) + x mod 3 = 3 * (y div 3) + y mod 3" by simp
  then show "x = y" by (simp only: mult_div_mod_eq)
qed

lemma rgbaOffset_less:
  assumes "i < n * 3"
  shows "rgbaOffset i < n * 4"
proof -
  have "i div 3 < n" using assms by (simp add: div_less_iff_less_mult)
  then have "Suc (i div 3) * 4 \<le> n * 4" by (simp only: Suc_leI mult_le_mono1)
  moreover have "i mod 3 < 4" by (rule mod3_less4)
  ultimately show ?thesis by (simp add: rgbaOffset_def)
qed

lemma rgbaOffset_mono:
  assumes "i < j"
  shows "rgbaOffset i < rgbaOffset j"
proof (cases "i div 3 = j div 3")
  case True
  have "3 * (i div 3) + i mod 3 < 3 * (j div 3) + j mod 3" using assms by (simp only: mult_div_mod_eq)
  then have "i mod 3 < j mod 3" unfolding True by (simp only: nat_add_left_cancel_less)
  then show ?thesis using True by (simp add: rgbaOffset_def)
next
  case False
  have "i div 3 \<le> j div 3" using assms by (simp add: div_le_mono)
  then have "Suc (i div 3) \<le> j div 3" using False by simp
  then have "Suc (i div 3) * 4 \<le> (j div 3) * 4" by (simp only: mult_le_mono1)
  moreover have "i mod 3 < 4" by (rule mod3_less4)
  ultimately show ?thesis by (simp add: rgbaOffset_def)
qed

lemma inj_wavOffset: "0 < bps \<Longrightarrow> inj_on (wavOffset dOff bps) A"
  by (rule inj_onI) (simp add: wavOffset_def)

lemma wavOffset_less:
  assumes "i < dLen div bps" and "0 < bps"
  shows "wavOffset dOff bps i < dOff + dLen"
proof -
  have "Suc i \<le> dLen div bps" using assms(1) by simp
  then have "Suc i * bps \<le> dLen" using assms(2) by (simp add: less_eq_div_iff_mult_less_eq)
  then show ?thesis using assms(2) by (simp add: wavOffset_def)
qed

lemma bit_setLSB_bitAt_0: "bit (setLSB s (bitAt P i)) 0 \<longleftrightarrow> bit (bitAt P i) 0"
  unfolding bitAt_def by (simp add: bit_setLSB_0 bit_payloadBit)

lemma embedLoop_holdsPayload:
  assumes inj: "inj_on addr {0 ..< 8 * length P}"
    and inside: "\<And>i. i < 8 * length P \<Longrightarrow> addr i < length buf"
    and cap: "8 * length P \<le> capacityBits r"
    and r: "rbuf r = fst (embedLoop addr buf 0 P)" "raddr r = addr"
  shows "holdsPayload r P"
  unfolding holdsPayload_def
proof (intro conjI allI impI)
  show "8 * length P \<le> capacityBits r" by (rule cap)
next
  fix i assume i: "i < 8 * length P"
  have w: "fst (embedLoop addr buf 0 P) ! addr (0 + i) = setLSB (buf ! addr (0 + i)) (bitAt P i)"
    by (rule embedLoop_written) (use inj i inside in auto)
  have "addr i < length (fst (embedLoop addr buf 0 P))"
    using inside [OF i] by (simp add: embedLoop_length)
  then have "carrierBit r i \<longleftrightarrow> bit (fst (embedLoop addr buf 0 P) ! addr i) 0"
    by (simp add: carrierBit_def lsbAt_def r bit_simps)
  then show "carrierBit r i \<longleftrightarrow> bit (bitAt P i) 0"
    using w by (simp add: bit_setLSB_bitAt_0)
qed

text \<open>
  Claim C5. When the payload passes the capacity check of \<open>embedLSB_RGBA\<close>, the call
  succeeds with \<open>usedBits = 8 * payload.length\<close> and the buffer keeps its length. Bit
  \<open>i\<close> of the payload, counted most-significant bit first within each byte, lands in the
  sample at offset \<open>4 * floor(i / 3) + i mod 3\<close> (when the buffer has that offset): the
  sample keeps its upper seven bits and its lowest bit becomes the payload bit. Every
  other byte is as before; in particular every alpha byte (offset \<open>3 mod 4\<close>) and every
  byte from the offset of the first unwritten bit on.
\<close>

theorem embedLSB_RGBA_addressing:
  assumes "bitsNeeded (length payload) \<le> width * height * 3"
  shows "fst (embedLSB_RGBA rgbabuf width height payload) = Inr (8 * length payload)
    \<and> length (snd (embedLSB_RGBA rgbabuf width height payload)) = length rgbabuf
    \<and> (\<forall>i < 8 * length payload. 4 * (i div 3) + i mod 3 < length rgbabuf \<longrightarrow>
          snd (embedLSB_RGBA rgbabuf width height payload) ! (4 * (i div 3) + i mod 3)
          = (rgbabuf ! (4 * (i div 3) + i mod 3) AND 0xfe)
            OR (drop_bit (7 - i mod 8) (payload ! (i div 8)) AND 1))
    \<and> (\<forall>j. (\<forall>i < 8 * length payload. j \<noteq> 4 * (i div 3) + i mod 3) \<longrightarrow>
          snd (embedLSB_RGBA rgbabuf width height payload) ! j = rgbabuf ! j)
    \<and> (\<forall>j. j mod 4 = 3 \<longrightarrow> snd (embedLSB_RGBA rgbabuf width height payload) ! j = rgbabuf ! j)
    \<and> (\<forall>j \<ge> 4 * ((8 * length payload) div 3) + (8 * length payload) mod 3.
          snd (embedLSB_RGBA rgbabuf width height payload) ! j = rgbabuf ! j)"
proof -
  let ?n = "8 * length payload"
  let ?stego = "fst (embedLoop rgbaOffset rgbabuf 0 payload)"
  have res: "embedLSB_RGBA rgbabuf width height payload = (Inr ?n, ?stego)"
    using assms by (simp add: embedLSB_RGBA_def bitsNeeded_def Let_def mult.commute)
  have off: "\<And>i. 4 * (i div 3) + i mod 3 = rgbaOffset i" by (simp add: rgbaOffset_def)
  have written: "?stego ! rgbaOffset i
        = (rgbabuf ! rgbaOffset i AND 0xfe) OR (drop_bit (7 - i mod 8) (payload ! (i div 8)) AND 1)"
    if "i < ?n" and "rgbaOffset i < length rgbabuf" for i
  proof -
    have "?stego ! rgbaOffset (0 + i) = setLSB (rgbabuf ! rgbaOffset (0 + i)) (bitAt payload i)"
      by (rule embedLoop_written) (use that in \<open>auto intro: inj_rgbaOffset\<close>)
    then show ?thesis by (simp add: setLSB_def bitAt_def payloadBit_def)
  qed
  have other: "?stego ! j = rgbabuf ! j" if "\<And>i. i < ?n \<Longrightarrow> j \<noteq> rgbaOffset i" for j
  proof (rule embedLoop_other)
    fix i assume "i < ?n"
    from that [OF this] show "rgbaOffset (0 + i) \<noteq> j" by simp
  qed
  have alpha: "?stego ! j = rgbabuf ! j" if "j mod 4 = 3" for j
  proof (rule other)
    fix i
    have "rgbaOffset i mod 4 < 3" by (simp add: rgbaOffset_mod)
    then show "j \<noteq> rgbaOffset i" using that by auto
  qed
  have beyond: "?stego ! j = rgbabuf ! j" if "rgbaOffset ?n \<le> j" for j
  proof (rule other)
    fix i assume "i < ?n"
    then have "rgbaOffset i < rgbaOffset ?n" by (rule rgbaOffset_mono)
    then show "j \<noteq> rgbaOffset i" using that by simp
  qed
  show ?thesis
    unfolding res off fst_conv snd_conv
    using written other alpha beyond by (simp add: embedLoop_length)
qed

theorem embedLSB_RGBA_addressing_witness:
  "bitsNeeded (length [0xA5 :: byte]) \<le> 3 * 1 * 3
   \<and> fst (embedLSB_RGBA [9, 9, 9, 9, 9, 9, 9, 9, 9, 9, 9, 9] 3 1 [0xA5]) = Inr 8
   \<and> snd (embedLSB_RGBA [9, 9, 9, 9, 9, 9, 9, 9, 9, 9, 9, 9] 3 1 [0xA5]) ! 5
       = ((9 :: byte) AND 0xfe) OR (drop_bit 3 (0xA5 :: byte) AND 1)
   \<and> snd (embedLSB_RGBA [9, 9, 9, 9, 9, 9, 9, 9, 9, 9, 9, 9] 3 1 [0xA5]) ! 3 = 9
   \<and> snd (embedLSB_RGBA [9, 9, 9, 9, 9, 9, 9, 9, 9, 9, 9, 9] 3 1 [0xA5])
       = [9, 8, 9, 9, 8, 8, 9, 9, 8, 9, 9, 9]"
proof -
  let ?buf = "[9, 9, 9, 9, 9, 9, 9, 9, 9, 9, 9, 9] :: bytes"
  have h: "bitsNeeded (length [0xA5 :: byte]) \<le> 3 * 1 * 3" by (simp add: bitsNeeded_def)
  note t = embedLSB_RGBA_addressing [OF h, of ?buf]
  have a: "fst (embedLSB_RGBA ?buf 3 1 [0xA5]) = Inr 8" using t by simp
  have b: "snd (embedLSB_RGBA ?buf 3 1 [0xA5]) ! 5
       = ((9 :: byte) AND 0xfe) OR (drop_bit 3 (0xA5 :: byte) AND 1)"
    using t [THEN conjunct2, THEN conjunct2, THEN conjunct1, rule_format, of 4] by simp
  have c: "snd (embedLSB_RGBA ?buf 3 1 [0xA5]) ! 3 = 9"
    using t [THEN conjunct2, THEN conjunct2, THEN conjunct2, THEN conjunct2, THEN conjunct1,
             rule_format, of 3] by simp
  have d: "snd (embedLSB_RGBA ?buf 3 1 [0xA5]) = [9, 8, 9, 9, 8, 8, 9, 9, 8, 9, 9, 9]"
    by code_simp
  from h a b c d show ?thesis by blast
qed

lemma ceilKB_bounds: "n \<le> 8192 * ceilKB n \<and> 8192 * ceilKB n < n + 8192"
proof -
  have "(n + 8191) mod 8192 < 8192" by simp
  moreover have "8192 * ((n + 8191) div 8192) + (n + 8191) mod 8192 = n + 8191"
    by (rule mult_div_mod_eq)
  ultimately show ?thesis unfolding ceilKB_def by linarith
qed

lemma readBytes_payload:
  assumes "holdsPayload r P" and "bitIdx r = 8 * p" and "p + n \<le> length P"
    and "int n \<le> kMaxLength"
  shows "readBytes r (int n) = Inr (take n (drop p P), r\<lparr>bitIdx := 8 * (p + n)\<rparr>)"
  using readBytesLoop_payload [OF assms(1,2,3)] assms(4) by (simp add: readBytes_def)

lemma readBytes_large: "n > kMaxLength \<Longrightarrow> readBytes r n = Inl RangeError"
  by (simp add: readBytes_def)

lemma holdsPayload_image:
  assumes "8 * length P \<le> width * height * 3" and "length rgbabuf = width * height * 4"
  shows "holdsPayload (imageReader (fst (embedLoop rgbaOffset rgbabuf 0 P)) width height) P"
proof (rule embedLoop_holdsPayload [where addr = rgbaOffset and buf = rgbabuf])
  show "inj_on rgbaOffset {0..<8 * length P}" by (rule inj_rgbaOffset)
next
  fix i assume "i < 8 * length P"
  then have "i < (width * height) * 3" using assms(1) by simp
  then have "rgbaOffset i < (width * height) * 4" by (rule rgbaOffset_less)
  then show "rgbaOffset i < length rgbabuf" using assms(2) by simp
qed (use assms in \<open>simp_all add: imageReader_def\<close>)

lemma holdsPayload_audio:
  assumes "8 * length P \<le> dLen div bps" and "0 < bps" and "dOff + dLen \<le> length buf"
  shows "holdsPayload (audioReader (fst (embedLoop (wavOffset dOff bps) buf 0 P)) dOff bps
            (dLen div bps)) P"
proof (rule embedLoop_holdsPayload [where addr = "wavOffset dOff bps" and buf = buf])
  show "inj_on (wavOffset dOff bps) {0..<8 * length P}" by (rule inj_wavOffset [OF assms(2)])
next
  fix i assume "i < 8 * length P"
  then have "i < dLen div bps" using assms(1) by simp
  then have "wavOffset dOff bps i < dOff + dLen" using assms(2) by (rule wavOffset_less)
  then show "wavOffset dOff bps i < length buf" using assms(3) by simp
qed (use assms in \<open>simp_all add: audioReader_def\<close>)

lemma embedLSB_RGBA_ok:
  "8 * length P \<le> width * height * 3 \<Longrightarrow>
     embedLSB_RGBA rgbabuf width height P
       = (Inr (8 * length P), fst (embedLoop rgbaOffset rgbabuf 0 P))"
  by (simp add: embedLSB_RGBA_def bitsNeeded_def Let_def mult.commute)

lemma embedLSB_WavPCM_ok:
  "8 * length P \<le> dLen div (bps div 8) \<Longrightarrow>
     embedLSB_WavPCM buf P dOff dLen bps
       = (Inr (8 * length P), fst (embedLoop (wavOffset dOff (bps div 8)) buf 0 P))"
  by (simp add: embedLSB_WavPCM_def bitsNeeded_def Let_def mult.commute)

text \<open>
  Claim C2. Image: when the payload needs no more bits than \<open>width * height * 3\<close> (the
  boundary case of equality included) and the buffer is the RGBA buffer of that size,
  \<open>embedLSB_RGBA\<close> succeeds and the image reader reads the whole payload back from the
  result (a payload longer than any \<open>Buffer\<close> can be is refused by \<open>Buffer.alloc\<close>); when the payload needs more bits, the call returns the capacity error with
  both sizes rounded up to whole KB, and the buffer is the one it was given. Audio: the
  same for \<open>embedLSB_WavPCM\<close> with one bit per sample, for 8 and 16 bit samples and a
  data region that lies within the buffer. \<open>ceilKB\<close> is the rounding up to units of
  8192 bits.
\<close>

theorem capacity_boundary:
  "(bitsNeeded (length payload) \<le> width * height * 3 \<and> length rgbabuf = width * height * 4 \<longrightarrow>
      fst (embedLSB_RGBA rgbabuf width height payload) = Inr (bitsNeeded (length payload))
      \<and> readBytes (imageReader (snd (embedLSB_RGBA rgbabuf width height payload)) width height)
            (int (length payload))
          = (if int (length payload) \<le> kMaxLength
             then Inr (payload,
                 (imageReader (snd (embedLSB_RGBA rgbabuf width height payload)) width height)
                   \<lparr>bitIdx := 8 * length payload\<rparr>)
             else Inl RangeError))
   \<and> (bitsNeeded (length payload) > width * height * 3 \<longrightarrow>
        embedLSB_RGBA rgbabuf width height payload
          = (Inl (NotEnoughCapacity (ceilKB (bitsNeeded (length payload)))
                    (ceilKB (width * height * 3))), rgbabuf))
   \<and> ((bps = 8 \<or> bps = 16) \<and> dOff + dLen \<le> length buf
        \<and> bitsNeeded (length payload) \<le> dLen div (bps div 8) \<longrightarrow>
        fst (embedLSB_WavPCM buf payload dOff dLen bps) = Inr (bitsNeeded (length payload))
        \<and> readBytes (audioReader (snd (embedLSB_WavPCM buf payload dOff dLen bps)) dOff
                       (bps div 8) (dLen div (bps div 8)))
              (int (length payload))
            = (if int (length payload) \<le> kMaxLength
               then Inr (payload,
                   (audioReader (snd (embedLSB_WavPCM buf payload dOff dLen bps)) dOff
                      (bps div 8) (dLen div (bps div 8)))
                     \<lparr>bitIdx := 8 * length payload\<rparr>)
               else Inl RangeError))
   \<and> (bitsNeeded (length payload) > dLen div (bps div 8) \<longrightarrow>
        embedLSB_WavPCM buf payload dOff dLen bps
          = (Inl (NotEnoughWavCapacity (ceilKB (bitsNeeded (length payload)))
                    (ceilKB (dLen div (bps div 8)))), buf))
   \<and> (\<forall>n. n \<le> 8192 * ceilKB n \<and> 8192 * ceilKB n < n + 8192)"
proof (intro conjI impI allI)
  assume a: "bitsNeeded (length payload) \<le> width * height * 3 \<and> length rgbabuf = width * height * 4"
  then have cap: "8 * length payload \<le> width * height * 3" by (simp add: bitsNeeded_def)
  note ok = embedLSB_RGBA_ok [OF cap, of rgbabuf]
  show "fst (embedLSB_RGBA rgbabuf width height payload) = Inr (bitsNeeded (length payload))"
    by (simp add: ok bitsNeeded_def)
  let ?r = "imageReader (snd (embedLSB_RGBA rgbabuf width height payload)) width height"
  have h: "holdsPayload ?r payload"
    unfolding ok snd_conv using cap a by (intro holdsPayload_image) simp_all
  have "bitIdx ?r = 8 * 0" by (simp add: imageReader_def)
  from readBytes_payload [OF h this, of "length payload"] readBytes_large [of "int (length payload)" ?r]
  show "readBytes ?r (int (length payload))
        = (if int (length payload) \<le> kMaxLength
           then Inr (payload, ?r\<lparr>bitIdx := 8 * length payload\<rparr>) else Inl RangeError)"
    by simp
next
  assume "bitsNeeded (length payload) > width * height * 3"
  then show "embedLSB_RGBA rgbabuf width height payload
          = (Inl (NotEnoughCapacity (ceilKB (bitsNeeded (length payload)))
                    (ceilKB (width * height * 3))), rgbabuf)"
    by (simp add: embedLSB_RGBA_def Let_def)
next
  assume a: "(bps = 8 \<or> bps = 16) \<and> dOff + dLen \<le> length buf
        \<and> bitsNeeded (length payload) \<le> dLen div (bps div 8)"
  then have cap: "8 * length payload \<le> dLen div (bps div 8)" by (simp add: bitsNeeded_def)
  have pos: "0 < bps div 8" using a by auto
  note ok = embedLSB_WavPCM_ok [OF cap, of buf dOff]
  show "fst (embedLSB_WavPCM buf payload dOff dLen bps) = Inr (bitsNeeded (length payload))"
    by (simp add: ok bitsNeeded_def)
  let ?r = "audioReader (snd (embedLSB_WavPCM buf payload dOff dLen bps)) dOff
              (bps div 8) (dLen div (bps div 8))"
  have h: "holdsPayload ?r payload"
    unfolding ok snd_conv using cap pos a by (intro holdsPayload_audio) simp_all
  have "bitIdx ?r = 8 * 0" by (simp add: audioReader_def)
  from readBytes_payload [OF h this, of "length payload"] readBytes_large [of "int (length payload)" ?r]
  show "readBytes ?r (int (length payload))
        = (if int (length payload) \<le> kMaxLength
           then Inr (payload, ?r\<lparr>bitIdx := 8 * length payload\<rparr>) else Inl RangeError)"
    by simp
next
  assume "bitsNeeded (length payload) > dLen div (bps div 8)"
  then show "embedLSB_WavPCM buf payload dOff dLen bps
          = (Inl (NotEnoughWavCapacity (ceilKB (bitsNeeded (length payload)))
                    (ceilKB (dLen div (bps div 8)))), buf)"
    by (simp add: embedLSB_WavPCM_def Let_def)
next
  fix n show "n \<le> 8192 * ceilKB n" using ceilKB_bounds [of n] by simp
next
  fix n show "8192 * ceilKB n < n + 8192" using ceilKB_bounds [of n] by simp
qed

theorem capacity_boundary_witness:
  "bitsNeeded (length [1, 2, 3 :: byte]) = 4 * 2 * 3
   \<and> length (replicate 32 (0 :: byte)) = 4 * 2 * 4
   \<and> fst (embedLSB_RGBA (replicate 32 0) 4 2 [1, 2, 3]) = Inr 24
   \<and> readBytes (imageReader (snd (embedLSB_RGBA (replicate 32 0) 4 2 [1, 2, 3])) 4 2) 3
       = Inr ([1, 2, 3],
              (imageReader (snd (embedLSB_RGBA (replicate 32 0) 4 2 [1, 2, 3])) 4 2)
                \<lparr>bitIdx := 24\<rparr>)
   \<and> bitsNeeded (length [1, 2 :: byte]) = 5 * 1 * 3 + 1
   \<and> embedLSB_RGBA (replicate 20 7) 5 1 [1, 2] = (Inl (NotEnoughCapacity 1 1), replicate 20 7)
   \<and> 44 + 16 \<le> length (replicate 60 (0 :: byte))
   \<and> bitsNeeded (length [1, 2 :: byte]) = 16 div (8 div 8)
   \<and> fst (embedLSB_WavPCM (replicate 60 0) [1, 2] 44 16 8) = Inr 16
   \<and> readBytes (audioReader (snd (embedLSB_WavPCM (replicate 60 0) [1, 2] 44 16 8)) 44 1 16) 2
       = Inr ([1, 2],
              (audioReader (snd (embedLSB_WavPCM (replicate 60 0) [1, 2] 44 16 8)) 44 1 16)
                \<lparr>bitIdx := 16\<rparr>)
   \<and> bitsNeeded (length [1, 2 :: byte]) = 15 div (8 div 8) + 1
   \<and> embedLSB_WavPCM (replicate 59 7) [1, 2] 44 15 8
       = (Inl (NotEnoughWavCapacity 1 1), replicate 59 7)"
proof -
  have h1: "bitsNeeded (length [1, 2, 3 :: byte]) = 4 * 2 * 3" by (simp add: bitsNeeded_def)
  have h2: "length (replicate 32 (0 :: byte)) = 4 * 2 * 4" by simp
  have h3: "bitsNeeded (length [1, 2 :: byte]) = 5 * 1 * 3 + 1" by (simp add: bitsNeeded_def)
  have h4: "44 + 16 \<le> length (replicate 60 (0 :: byte))" by simp
  have h5: "bitsNeeded (length [1, 2 :: byte]) = 16 div (8 div 8)" by (simp add: bitsNeeded_def)
  have h6: "bitsNeeded (length [1, 2 :: byte]) = 15 div (8 div 8) + 1" by (simp add: bitsNeeded_def)
  have k: "ceilKB 16 = 1" "ceilKB 15 = 1" by (simp_all add: ceilKB_def)
  note i1 = capacity_boundary [of "[1, 2, 3]" 4 2 "replicate 32 0", THEN conjunct1]
  note i2 = capacity_boundary [of "[1, 2]" 5 1 "replicate 20 7", THEN conjunct2, THEN conjunct1]
  note a1 = capacity_boundary [of "[1, 2]" _ _ _ 8 44 16 "replicate 60 0",
      THEN conjunct2, THEN conjunct2, THEN conjunct1]
  note a2 = capacity_boundary [of "[1, 2]" _ _ _ 8 44 15 "replicate 59 7",
      THEN conjunct2, THEN conjunct2, THEN conjunct2, THEN conjunct1]
  have c1: "fst (embedLSB_RGBA (replicate 32 0) 4 2 [1, 2, 3]) = Inr 24
     \<and> readBytes (imageReader (snd (embedLSB_RGBA (replicate 32 0) 4 2 [1, 2, 3])) 4 2) 3
       = Inr ([1, 2, 3],
              (imageReader (snd (embedLSB_RGBA (replicate 32 0) 4 2 [1, 2, 3])) 4 2)
                \<lparr>bitIdx := 24\<rparr>)"
    using i1 h1 by (simp add: kMaxLength_def)
  have c2: "embedLSB_RGBA (replicate 20 7) 5 1 [1, 2]
              = (Inl (NotEnoughCapacity 1 1), replicate 20 7)"
    using i2 h3 k by simp
  have c3: "fst (embedLSB_WavPCM (replicate 60 0) [1, 2] 44 16 8) = Inr 16
     \<and> readBytes (audioReader (snd (embedLSB_WavPCM (replicate 60 0) [1, 2] 44 16 8)) 44 1 16) 2
       = Inr ([1, 2],
              (audioReader (snd (embedLSB_WavPCM (replicate 60 0) [1, 2] 44 16 8)) 44 1 16)
                \<lparr>bitIdx := 16\<rparr>)"
    using a1 h5 by (simp add: kMaxLength_def)
  have c4: "embedLSB_WavPCM (replicate 59 7) [1, 2] 44 15 8
       = (Inl (NotEnoughWavCapacity 1 1), replicate 59 7)"
    using a2 h6 k by simp
  from h1 h2 c1 h3 c2 h4 h5 c3 h6 c4 show ?thesis by blast
qed

declare scanChunks.simps [simp del]

lemma bindE_simps [simp]:
  "bindE (Inl e) f = Inl e"
  "bindE (Inr v) f = f v"
  by (simp_all add: bindE_def)

lemma bindE_Inr_iff:
  "bindE x f = Inr y \<longleftrightarrow> (\<exists>v. x = Inr v \<and> f v = Inr y)"
  by (cases x) simp_all



lemmas wav_eval = parseWavHeader_def scanChunks.simps readFmt_def readUInt16LE_def
  readUInt32LE_def asciiSlice_def ascii_def


lemma parse_wav24: "parseWavHeader wav24 = Inl (UnsupportedBitDepth 24)"
  by (simp add: wav_eval wav24_def)





lemmas sample_eval = sample_stringify_def stringifyItem_def quote_def quoteChar_def showInt_def
  showNat.simps js_def ascii_def

lemma trim_empty_iff: "trim s = [] \<longleftrightarrow> (\<forall>c \<in> set s. isWhiteSpace c)"
proof
  assume "\<forall>c \<in> set s. isWhiteSpace c"
  then have d: "dropWhile isWhiteSpace s = []" by (simp add: dropWhile_eq_Nil_conv)
  show "trim s = []" unfolding trim_def d by simp
next
  assume t: "trim s = []"
  show "\<forall>c \<in> set s. isWhiteSpace c"
  proof (rule ccontr)
    assume "\<not> (\<forall>c \<in> set s. isWhiteSpace c)"
    then have ne: "dropWhile isWhiteSpace s \<noteq> []" by (simp add: dropWhile_eq_Nil_conv)
    then have "\<not> isWhiteSpace (hd (dropWhile isWhiteSpace s))" by (rule hd_dropWhile)
    moreover have "hd (dropWhile isWhiteSpace s) \<in> set (rev (dropWhile isWhiteSpace s))"
      using ne by simp
    ultimately have "dropWhile isWhiteSpace (rev (dropWhile isWhiteSpace s)) \<noteq> []"
      by (auto simp: dropWhile_eq_Nil_conv)
    then show False using t by (simp add: trim_def)
  qed
qed

lemma length_u32 [simp]: "length (u32 n) = 4"
  by (simp add: u32_def Let_def)



lemma slice_nat: "slice buf (int a) (int b) = take (b - a) (drop a buf)"
  by (auto simp: slice_def adjustOffset_def Let_def min_def)

lemma holdsPayload_bitIdx [simp]: "holdsPayload (r\<lparr>bitIdx := b\<rparr>) P = holdsPayload r P"
  by (simp add: holdsPayload_def carrierBit_def)

lemma slice_nonneg:
  "0 \<le> a \<Longrightarrow> 0 \<le> b \<Longrightarrow> slice buf a b = take (nat b - nat a) (drop (nat a) buf)"
  using slice_nat [of buf "nat a" "nat b"] by simp


lemma length_ascii [simp]: "length (ascii s) = length s"
  by (simp add: ascii_def)



section \<open>The readers on the raw buffer\<close>

lemma readByte_numeral:
  "readByte r byte (numeral k) =
     (if bitIdx r \<ge> capacityBits r then Inl (outOfCapacity r)
      else readByte (r\<lparr>bitIdx := bitIdx r + 1\<rparr>)
             (byte OR push_bit (pred_numeral k) (lsbAt (rbuf r) (raddr r (bitIdx r))))
             (pred_numeral k))"
  by (simp add: numeral_eq_Suc)

lemma readBytesLoop_numeral:
  "readBytesLoop r (numeral k) =
     (case readByte r 0 8 of
        Inl e \<Rightarrow> Inl e
      | Inr (x, r') \<Rightarrow>
          (case readBytesLoop r' (pred_numeral k) of
             Inl e \<Rightarrow> Inl e
           | Inr (out, r'') \<Rightarrow> Inr (x # out, r'')))"
  by (simp add: numeral_eq_Suc)

lemmas read_eval = readBytes_def kMaxLength_def imageReader_def audioReader_def lsbAt_def
  rgbaOffset_def wavOffset_def readByte_numeral readBytesLoop_numeral

lemma carrierBit_raw:
  "carrierBit r i \<longleftrightarrow> raddr r i < length (rbuf r) \<and> bit (rbuf r ! raddr r i) 0"
  by (simp add: carrierBit_def lsbAt_def bit_simps)

lemma readBytes_fit:
  assumes "int k \<le> kMaxLength" and "bitIdx r + 8 * k \<le> capacityBits r"
  shows "\<exists>out. readBytes r (int k) = Inr (out, r\<lparr>bitIdx := bitIdx r + 8 * k\<rparr>)
           \<and> length out = k
           \<and> (\<forall>j < k. \<forall>m < 8. bit (out ! j) (7 - m) \<longleftrightarrow>
                 (raddr r (bitIdx r + 8 * j + m) < length (rbuf r)
                  \<and> bit (rbuf r ! raddr r (bitIdx r + 8 * j + m)) 0))"
  using readBytesLoop_Inr [OF assms(2)] assms(1)
  by (simp add: readBytes_def carrierBit_raw)

lemma readBytes_over:
  assumes "int k \<le> kMaxLength" and "bitIdx r \<le> capacityBits r"
    and "bitIdx r + 8 * k > capacityBits r"
  shows "readBytes r (int k) = Inl (outOfCapacity r)"
  using readBytesLoop_Inl [OF assms(2,3)] assms(1) by (simp add: readBytes_def)

text \<open>
  Claim C9, as the code has it. \<open>readBytes(n)\<close> first allocates its result: a size below
  zero or above the greatest length of a \<open>Buffer\<close> fails there with a range error,
  whatever the capacity. For any other size, on the image reader and on the audio reader
  at any cursor \<open>idx\<close>: when \<open>idx + 8 * n\<close> stays within the capacity the call returns
  exactly \<open>n\<close> bytes and moves the cursor to \<open>idx + 8 * n\<close>, and bit \<open>7 - m\<close> of byte \<open>j\<close>
  is the lowest bit of the buffer byte that holds carrier bit \<open>idx + 8 * j + m\<close> (offset
  \<open>4 * floor(i / 3) + i mod 3\<close> in the image, \<open>dataOffset + i * bytesPerSample\<close> in the
  audio data; a byte outside the buffer reads as 0); when \<open>idx + 8 * n\<close> passes the
  capacity the call fails with the out-of-capacity error of the reader and returns no
  bytes.
\<close>

theorem readBytes_contract:
  "(n < 0 \<or> n > kMaxLength \<longrightarrow> readBytes r n = Inl RangeError)
   \<and> (int k \<le> kMaxLength \<and> idx + 8 * k \<le> width * height * 3 \<longrightarrow>
        (\<exists>out. readBytes ((imageReader data width height)\<lparr>bitIdx := idx\<rparr>) (int k)
                 = Inr (out, (imageReader data width height)\<lparr>bitIdx := idx + 8 * k\<rparr>)
           \<and> length out = k
           \<and> (\<forall>j < k. \<forall>m < 8. bit (out ! j) (7 - m) \<longleftrightarrow>
                 (4 * ((idx + 8 * j + m) div 3) + (idx + 8 * j + m) mod 3 < length data
                  \<and> bit (data ! (4 * ((idx + 8 * j + m) div 3) + (idx + 8 * j + m) mod 3)) 0))))
   \<and> (int k \<le> kMaxLength \<and> idx \<le> width * height * 3 \<and> idx + 8 * k > width * height * 3 \<longrightarrow>
        readBytes ((imageReader data width height)\<lparr>bitIdx := idx\<rparr>) (int k)
          = Inl OutOfCapacityReading)
   \<and> (int k \<le> kMaxLength \<and> idx + 8 * k \<le> numSamples \<longrightarrow>
        (\<exists>out. readBytes ((audioReader wav dOff bps numSamples)\<lparr>bitIdx := idx\<rparr>) (int k)
                 = Inr (out, (audioReader wav dOff bps numSamples)\<lparr>bitIdx := idx + 8 * k\<rparr>)
           \<and> length out = k
           \<and> (\<forall>j < k. \<forall>m < 8. bit (out ! j) (7 - m) \<longleftrightarrow>
                 (dOff + (idx + 8 * j + m) * bps < length wav
                  \<and> bit (wav ! (dOff + (idx + 8 * j + m) * bps)) 0))))
   \<and> (int k \<le> kMaxLength \<and> idx \<le> numSamples \<and> idx + 8 * k > numSamples \<longrightarrow>
        readBytes ((audioReader wav dOff bps numSamples)\<lparr>bitIdx := idx\<rparr>) (int k)
          = Inl OutOfAudioCapacityReading)"
proof (intro conjI impI)
  assume "n < 0 \<or> n > kMaxLength"
  then show "readBytes r n = Inl RangeError" by (auto simp: readBytes_def)
next
  let ?r = "(imageReader data width height)\<lparr>bitIdx := idx\<rparr>"
  assume a: "int k \<le> kMaxLength \<and> idx + 8 * k \<le> width * height * 3"
  then have "bitIdx ?r + 8 * k \<le> capacityBits ?r" by (simp add: imageReader_def)
  from readBytes_fit [OF conjunct1 [OF a] this]
  show "\<exists>out. readBytes ?r (int k)
                 = Inr (out, (imageReader data width height)\<lparr>bitIdx := idx + 8 * k\<rparr>)
           \<and> length out = k
           \<and> (\<forall>j < k. \<forall>m < 8. bit (out ! j) (7 - m) \<longleftrightarrow>
                 (4 * ((idx + 8 * j + m) div 3) + (idx + 8 * j + m) mod 3 < length data
                  \<and> bit (data ! (4 * ((idx + 8 * j + m) div 3) + (idx + 8 * j + m) mod 3)) 0))"
    by (simp add: imageReader_def rgbaOffset_def mult.commute)
next
  let ?r = "(imageReader data width height)\<lparr>bitIdx := idx\<rparr>"
  assume a: "int k \<le> kMaxLength \<and> idx \<le> width * height * 3 \<and> idx + 8 * k > width * height * 3"
  then have "bitIdx ?r \<le> capacityBits ?r" "bitIdx ?r + 8 * k > capacityBits ?r"
    by (simp_all add: imageReader_def)
  from readBytes_over [OF conjunct1 [OF a] this]
  show "readBytes ?r (int k) = Inl OutOfCapacityReading" by (simp add: imageReader_def)
next
  let ?r = "(audioReader wav dOff bps numSamples)\<lparr>bitIdx := idx\<rparr>"
  assume a: "int k \<le> kMaxLength \<and> idx + 8 * k \<le> numSamples"
  then have "bitIdx ?r + 8 * k \<le> capacityBits ?r" by (simp add: audioReader_def)
  from readBytes_fit [OF conjunct1 [OF a] this]
  show "\<exists>out. readBytes ?r (int k)
                 = Inr (out, (audioReader wav dOff bps numSamples)\<lparr>bitIdx := idx + 8 * k\<rparr>)
           \<and> length out = k
           \<and> (\<forall>j < k. \<forall>m < 8. bit (out ! j) (7 - m) \<longleftrightarrow>
                 (dOff + (idx + 8 * j + m) * bps < length wav
                  \<and> bit (wav ! (dOff + (idx + 8 * j + m) * bps)) 0))"
    by (simp add: audioReader_def wavOffset_def)
next
  let ?r = "(audioReader wav dOff bps numSamples)\<lparr>bitIdx := idx\<rparr>"
  assume a: "int k \<le> kMaxLength \<and> idx \<le> numSamples \<and> idx + 8 * k > numSamples"
  then have "bitIdx ?r \<le> capacityBits ?r" "bitIdx ?r + 8 * k > capacityBits ?r"
    by (simp_all add: audioReader_def)
  from readBytes_over [OF conjunct1 [OF a] this]
  show "readBytes ?r (int k) = Inl OutOfAudioCapacityReading" by (simp add: audioReader_def)
qed

theorem readBytes_contract_witness:
  "int 1 \<le> kMaxLength \<and> 0 + 8 * 1 \<le> (2 * 2 * 3 :: nat)
   \<and> readBytes ((imageReader [1, 0, 1, 7, 0, 0, 1, 7, 1, 0, 0, 7, 1, 1, 1, 7] 2 2)\<lparr>bitIdx := 0\<rparr>)
        (int 1)
       = Inr ([0xA6], (imageReader [1, 0, 1, 7, 0, 0, 1, 7, 1, 0, 0, 7, 1, 1, 1, 7] 2 2)
                        \<lparr>bitIdx := 0 + 8 * 1\<rparr>)
   \<and> 8 \<le> (2 * 2 * 3 :: nat) \<and> 8 + 8 * 1 > (2 * 2 * 3 :: nat)
   \<and> readBytes ((imageReader [1, 0, 1, 7, 0, 0, 1, 7, 1, 0, 0, 7, 1, 1, 1, 7] 2 2)\<lparr>bitIdx := 8\<rparr>)
        (int 1)
       = Inl OutOfCapacityReading
   \<and> 0 + 8 * 1 \<le> (8 :: nat)
   \<and> readBytes ((audioReader [1, 9, 0, 9, 1, 9, 1, 9, 0, 9, 0, 9, 1, 9, 0, 9] 0 2 8)\<lparr>bitIdx := 0\<rparr>)
        (int 1)
       = Inr ([0xB2], (audioReader [1, 9, 0, 9, 1, 9, 1, 9, 0, 9, 0, 9, 1, 9, 0, 9] 0 2 8)
                        \<lparr>bitIdx := 0 + 8 * 1\<rparr>)
   \<and> 8 \<le> (8 :: nat) \<and> 8 + 8 * 1 > (8 :: nat)
   \<and> readBytes ((audioReader [1, 9, 0, 9, 1, 9, 1, 9, 0, 9, 0, 9, 1, 9, 0, 9] 0 2 8)\<lparr>bitIdx := 8\<rparr>)
        (int 1)
       = Inl OutOfAudioCapacityReading
   \<and> (- 1 :: int) < 0
   \<and> readBytes (imageReader [1, 0, 1, 7, 0, 0, 1, 7, 1, 0, 0, 7, 1, 1, 1, 7] 2 2) (- 1)
       = Inl RangeError"
proof -
  let ?D = "[1, 0, 1, 7, 0, 0, 1, 7, 1, 0, 0, 7, 1, 1, 1, 7] :: bytes"
  let ?W = "[1, 9, 0, 9, 1, 9, 1, 9, 0, 9, 0, 9, 1, 9, 0, 9] :: bytes"
  have k: "int 1 \<le> kMaxLength" by (simp add: kMaxLength_def)
  have i1: "readBytes ((imageReader ?D 2 2)\<lparr>bitIdx := 0\<rparr>) (int 1)
       = Inr ([0xA6], (imageReader ?D 2 2)\<lparr>bitIdx := 0 + 8 * 1\<rparr>)"
  proof -
    from readBytes_contract [of _ _ 1 0 2 2 ?D, THEN conjunct2, THEN conjunct1] k
    obtain out where o: "readBytes ((imageReader ?D 2 2)\<lparr>bitIdx := 0\<rparr>) (int 1)
                 = Inr (out, (imageReader ?D 2 2)\<lparr>bitIdx := 0 + 8 * 1\<rparr>)"
      by auto
    moreover have "fst (projr (readBytes ((imageReader ?D 2 2)\<lparr>bitIdx := 0\<rparr>) (int 1))) = [0xA6]"
      by (simp add: read_eval)
    ultimately show ?thesis by simp
  qed
  have i2: "readBytes ((imageReader ?D 2 2)\<lparr>bitIdx := 8\<rparr>) (int 1) = Inl OutOfCapacityReading"
    using readBytes_contract [of _ _ 1 8 2 2 ?D, THEN conjunct2, THEN conjunct2, THEN conjunct1] k
    by simp
  have a1: "readBytes ((audioReader ?W 0 2 8)\<lparr>bitIdx := 0\<rparr>) (int 1)
       = Inr ([0xB2], (audioReader ?W 0 2 8)\<lparr>bitIdx := 0 + 8 * 1\<rparr>)"
  proof -
    from readBytes_contract [of _ _ 1 0 _ _ _ 8 ?W 0 2,
        THEN conjunct2, THEN conjunct2, THEN conjunct2, THEN conjunct1] k
    obtain out where o: "readBytes ((audioReader ?W 0 2 8)\<lparr>bitIdx := 0\<rparr>) (int 1)
                 = Inr (out, (audioReader ?W 0 2 8)\<lparr>bitIdx := 0 + 8 * 1\<rparr>)"
      by auto
    moreover have "fst (projr (readBytes ((audioReader ?W 0 2 8)\<lparr>bitIdx := 0\<rparr>) (int 1))) = [0xB2]"
      by (simp add: read_eval)
    ultimately show ?thesis by simp
  qed
  have a2: "readBytes ((audioReader ?W 0 2 8)\<lparr>bitIdx := 8\<rparr>) (int 1)
       = Inl OutOfAudioCapacityReading"
    using readBytes_contract [of _ _ 1 8 _ _ _ 8 ?W 0 2,
        THEN conjunct2, THEN conjunct2, THEN conjunct2, THEN conjunct2] k
    by simp
  have e: "readBytes (imageReader ?D 2 2) (- 1) = Inl RangeError"
    using readBytes_contract [of "- 1" "imageReader ?D 2 2", THEN conjunct1] by simp
  from k i1 i2 a1 a2 e show ?thesis by simp
qed

text \<open>
  The claim as the specification words it, an out-of-capacity error for every call that
  would pass the capacity, fails for the size \<open>2^53\<close>: the call fails in \<open>Buffer.alloc\<close>
  with a range error.
\<close>

theorem readBytes_contract_counterexample:
  "8 * 9007199254740992 > (2 * 2 * 3 :: nat)
   \<and> readBytes (imageReader [1, 0, 1, 7, 0, 0, 1, 7, 1, 0, 0, 7, 1, 1, 1, 7] 2 2)
        9007199254740992
       = Inl RangeError
   \<and> outOfCapacity (imageReader [1, 0, 1, 7, 0, 0, 1, 7, 1, 0, 0, 7, 1, 1, 1, 7] 2 2)
       = OutOfCapacityReading
   \<and> RangeError \<noteq> OutOfCapacityReading"
  by (simp add: readBytes_def kMaxLength_def imageReader_def)


text \<open>
  Claim C10. A secret text made only of whitespace (the code units that \<open>trim\<close> strips)
  counts as absent: it adds no item, so with no secret file \<open>packPayload\<close> fails with "No
  secret data provided", and with a secret file the container holds the file item alone.
  A text with at least one other code unit becomes the first item, of kind \<open>text\<close>, named
  \<open>message.txt\<close>, of mime \<open>text/plain\<close>, whose data are the UTF-8 bytes of the whole text,
  untrimmed; the container is the magic, the length of the metadata, the metadata of
  the items and those bytes, followed by the bytes of the file when there is one.
\<close>

theorem packPayload_whitespace:
  "((\<forall>c \<in> set secretText. isWhiteSpace c) \<longrightarrow>
        packPayload L secretText None = Inl NoSecretData
        \<and> secretItems L secretText None = []
        \<and> secretItems L secretText (Some f) = [\<lparr>it_t = js ''file'',
             it_name = (if originalname f \<noteq> [] then originalname f else js ''secret''),
             it_mime = (if mimetype f \<noteq> [] then mimetype f
                        else js ''application/octet-stream''),
             it_len = int (length (buffer f)), it_data = buffer f\<rparr>]
        \<and> packPayload L secretText (Some f) = Inr (ascii ''STEGv1''
               @ u32 (length (json_stringify L
                  \<lparr>meta_v = 1, meta_items = Some [\<lparr>m_t = js ''file'',
                  m_name = (if originalname f \<noteq> [] then originalname f else js ''secret''),
                  m_mime = (if mimetype f \<noteq> [] then mimetype f
                            else js ''application/octet-stream''),
                  m_len = int (length (buffer f))\<rparr>]\<rparr>))
               @ json_stringify L
                  \<lparr>meta_v = 1, meta_items = Some [\<lparr>m_t = js ''file'',
                  m_name = (if originalname f \<noteq> [] then originalname f else js ''secret''),
                  m_mime = (if mimetype f \<noteq> [] then mimetype f
                            else js ''application/octet-stream''),
                  m_len = int (length (buffer f))\<rparr>]\<rparr>
               @ buffer f))
   \<and> ((\<exists>c \<in> set secretText. \<not> isWhiteSpace c) \<longrightarrow>
        hd (secretItems L secretText secretFile)
          = \<lparr>it_t = js ''text'', it_name = js ''message.txt'', it_mime = js ''text/plain'',
             it_len = int (length (utf8_encode L secretText)),
             it_data = utf8_encode L secretText\<rparr>
        \<and> packPayload L secretText None
          = Inr (ascii ''STEGv1''
                 @ u32 (length (json_stringify L (metaOf (secretItems L secretText None))))
                 @ json_stringify L (metaOf (secretItems L secretText None))
                 @ utf8_encode L secretText)
        \<and> metaOf (secretItems L secretText None)
          = \<lparr>meta_v = 1,
             meta_items = Some [\<lparr>m_t = js ''text'', m_name = js ''message.txt'',
                                 m_mime = js ''text/plain'',
                                 m_len = int (length (utf8_encode L secretText))\<rparr>]\<rparr>
        \<and> secretItems L secretText None = [\<lparr>it_t = js ''text'', it_name = js ''message.txt'', it_mime = js ''text/plain'',
             it_len = int (length (utf8_encode L secretText)),
             it_data = utf8_encode L secretText\<rparr>]
        \<and> secretItems L secretText (Some f) = [\<lparr>it_t = js ''text'', it_name = js ''message.txt'', it_mime = js ''text/plain'',
             it_len = int (length (utf8_encode L secretText)),
             it_data = utf8_encode L secretText\<rparr>,
            \<lparr>it_t = js ''file'',
             it_name = (if originalname f \<noteq> [] then originalname f else js ''secret''),
             it_mime = (if mimetype f \<noteq> [] then mimetype f
                        else js ''application/octet-stream''),
             it_len = int (length (buffer f)), it_data = buffer f\<rparr>]
        \<and> packPayload L secretText (Some f) = Inr (ascii ''STEGv1''
               @ u32 (length (json_stringify L
                  \<lparr>meta_v = 1, meta_items = Some [\<lparr>m_t = js ''text'', m_name = js ''message.txt'', m_mime = js ''text/plain'',
                  m_len = int (length (utf8_encode L secretText))\<rparr>,
                  \<lparr>m_t = js ''file'',
                  m_name = (if originalname f \<noteq> [] then originalname f else js ''secret''),
                  m_mime = (if mimetype f \<noteq> [] then mimetype f
                            else js ''application/octet-stream''),
                  m_len = int (length (buffer f))\<rparr>]\<rparr>))
               @ json_stringify L
                  \<lparr>meta_v = 1, meta_items = Some [\<lparr>m_t = js ''text'', m_name = js ''message.txt'', m_mime = js ''text/plain'',
                  m_len = int (length (utf8_encode L secretText))\<rparr>,
                  \<lparr>m_t = js ''file'',
                  m_name = (if originalname f \<noteq> [] then originalname f else js ''secret''),
                  m_mime = (if mimetype f \<noteq> [] then mimetype f
                            else js ''application/octet-stream''),
                  m_len = int (length (buffer f))\<rparr>]\<rparr>
               @ utf8_encode L secretText @ buffer f))"
proof (intro conjI impI)
  assume "\<forall>c \<in> set secretText. isWhiteSpace c"
  then have t: "trim secretText = []" by (simp add: trim_empty_iff)
  show "packPayload L secretText None = Inl NoSecretData"
    using t by (simp add: packPayload_def secretItems_def)
  show "secretItems L secretText None = []"
    using t by (simp add: secretItems_def)
  show "secretItems L secretText (Some f) = [\<lparr>it_t = js ''file'',
             it_name = (if originalname f \<noteq> [] then originalname f else js ''secret''),
             it_mime = (if mimetype f \<noteq> [] then mimetype f
                        else js ''application/octet-stream''),
             it_len = int (length (buffer f)), it_data = buffer f\<rparr>]"
    using t by (simp add: secretItems_def)
  show "packPayload L secretText (Some f) = Inr (ascii ''STEGv1''
               @ u32 (length (json_stringify L
                  \<lparr>meta_v = 1, meta_items = Some [\<lparr>m_t = js ''file'',
                  m_name = (if originalname f \<noteq> [] then originalname f else js ''secret''),
                  m_mime = (if mimetype f \<noteq> [] then mimetype f
                            else js ''application/octet-stream''),
                  m_len = int (length (buffer f))\<rparr>]\<rparr>))
               @ json_stringify L
                  \<lparr>meta_v = 1, meta_items = Some [\<lparr>m_t = js ''file'',
                  m_name = (if originalname f \<noteq> [] then originalname f else js ''secret''),
                  m_mime = (if mimetype f \<noteq> [] then mimetype f
                            else js ''application/octet-stream''),
                  m_len = int (length (buffer f))\<rparr>]\<rparr>
               @ buffer f)"
    using t by (simp add: packPayload_def secretItems_def metaOf_def Let_def)
next
  assume "\<exists>c \<in> set secretText. \<not> isWhiteSpace c"
  then have t: "trim secretText \<noteq> []" and s: "secretText \<noteq> []"
    by (auto simp: trim_empty_iff)
  show "hd (secretItems L secretText secretFile)
          = \<lparr>it_t = js ''text'', it_name = js ''message.txt'', it_mime = js ''text/plain'',
             it_len = int (length (utf8_encode L secretText)),
             it_data = utf8_encode L secretText\<rparr>"
    using t s by (simp add: secretItems_def)
  show "packPayload L secretText None
          = Inr (ascii ''STEGv1''
                 @ u32 (length (json_stringify L (metaOf (secretItems L secretText None))))
                 @ json_stringify L (metaOf (secretItems L secretText None))
                 @ utf8_encode L secretText)"
    using t s by (simp add: packPayload_def secretItems_def Let_def)
  show "metaOf (secretItems L secretText None)
          = \<lparr>meta_v = 1,
             meta_items = Some [\<lparr>m_t = js ''text'', m_name = js ''message.txt'',
                                 m_mime = js ''text/plain'',
                                 m_len = int (length (utf8_encode L secretText))\<rparr>]\<rparr>"
    using t s by (simp add: metaOf_def secretItems_def)
  show "secretItems L secretText None = [\<lparr>it_t = js ''text'', it_name = js ''message.txt'', it_mime = js ''text/plain'',
             it_len = int (length (utf8_encode L secretText)),
             it_data = utf8_encode L secretText\<rparr>]"
    using t s by (simp add: secretItems_def)
  show "secretItems L secretText (Some f) = [\<lparr>it_t = js ''text'', it_name = js ''message.txt'', it_mime = js ''text/plain'',
             it_len = int (length (utf8_encode L secretText)),
             it_data = utf8_encode L secretText\<rparr>,
            \<lparr>it_t = js ''file'',
             it_name = (if originalname f \<noteq> [] then originalname f else js ''secret''),
             it_mime = (if mimetype f \<noteq> [] then mimetype f
                        else js ''application/octet-stream''),
             it_len = int (length (buffer f)), it_data = buffer f\<rparr>]"
    using t s by (simp add: secretItems_def)
  show "packPayload L secretText (Some f) = Inr (ascii ''STEGv1''
               @ u32 (length (json_stringify L
                  \<lparr>meta_v = 1, meta_items = Some [\<lparr>m_t = js ''text'', m_name = js ''message.txt'', m_mime = js ''text/plain'',
                  m_len = int (length (utf8_encode L secretText))\<rparr>,
                  \<lparr>m_t = js ''file'',
                  m_name = (if originalname f \<noteq> [] then originalname f else js ''secret''),
                  m_mime = (if mimetype f \<noteq> [] then mimetype f
                            else js ''application/octet-stream''),
                  m_len = int (length (buffer f))\<rparr>]\<rparr>))
               @ json_stringify L
                  \<lparr>meta_v = 1, meta_items = Some [\<lparr>m_t = js ''text'', m_name = js ''message.txt'', m_mime = js ''text/plain'',
                  m_len = int (length (utf8_encode L secretText))\<rparr>,
                  \<lparr>m_t = js ''file'',
                  m_name = (if originalname f \<noteq> [] then originalname f else js ''secret''),
                  m_mime = (if mimetype f \<noteq> [] then mimetype f
                            else js ''application/octet-stream''),
                  m_len = int (length (buffer f))\<rparr>]\<rparr>
               @ utf8_encode L secretText @ buffer f)"
    using t s by (simp add: packPayload_def secretItems_def metaOf_def Let_def)
qed

theorem packPayload_whitespace_witness:
  \<open>isWhiteSpace 0x20 \<and> isWhiteSpace 0x09 \<and> isWhiteSpace 0x3000
   \<and> packPayload (sampleLib []) [0x20, 0x09, 0x3000] None = Inl NoSecretData
   \<and> packPayload (sampleLib []) [0x20, 0x09, 0x3000]
        (Some \<lparr>buffer = [1, 2, 3], originalname = js ''a.bin'', mimetype = js ''x/y''\<rparr>)
       = Inr (ascii ''STEGv1'' @ [0, 0, 0, 66]
              @ ascii ''{"v":1,"items":[{"t":"file","name":"a.bin","mime":"x/y","len":3}]}''
              @ [1, 2, 3])
   \<and> \<not> isWhiteSpace 0x68
   \<and> packPayload (sampleLib []) (js '' hi '') None
       = Inr (ascii ''STEGv1'' @ [0, 0, 0, 79]
              @ ascii ''{"v":1,"items":[{"t":"text","name":"message.txt","mime":"text/plain","len":4}]}''
              @ ascii '' hi '')
   \<and> packPayload (sampleLib []) (js '' hi '')
        (Some \<lparr>buffer = [1, 2, 3], originalname = [], mimetype = []\<rparr>)
       = Inr (ascii ''STEGv1'' @ [0, 0, 0, 150]
              @ ascii ''{"v":1,"items":[{"t":"text","name":"message.txt","mime":"text/plain","len":4},{"t":"file","name":"secret","mime":"application/octet-stream","len":3}]}''
              @ ascii '' hi '' @ [1, 2, 3])\<close>
proof -
  let ?L = "sampleLib []"
  let ?f = "\<lparr>buffer = [1, 2, 3], originalname = js ''a.bin'', mimetype = js ''x/y''\<rparr>"
  let ?g = "\<lparr>buffer = [1, 2, 3 :: byte], originalname = [], mimetype = []\<rparr>"
  have w: "isWhiteSpace 0x20" "isWhiteSpace 0x09" "isWhiteSpace 0x3000" "\<not> isWhiteSpace 0x68"
    by (simp_all add: isWhiteSpace_def)
  have all: "\<forall>c \<in> set [0x20, 0x09, 0x3000]. isWhiteSpace c" using w by simp
  note t1 = packPayload_whitespace [of "[0x20, 0x09, 0x3000]" ?L ?f, THEN conjunct1, THEN mp, OF all]
  have a: "packPayload ?L [0x20, 0x09, 0x3000] None = Inl NoSecretData"
    using t1 by blast
  have b: \<open>packPayload ?L [0x20, 0x09, 0x3000] (Some ?f)
       = Inr (ascii ''STEGv1'' @ [0, 0, 0, 66]
              @ ascii ''{"v":1,"items":[{"t":"file","name":"a.bin","mime":"x/y","len":3}]}''
              @ [1, 2, 3])\<close>
    unfolding t1 [THEN conjunct2, THEN conjunct2, THEN conjunct2]
    by (simp add: sampleLib_def sample_eval u32_def)
  have ex: "\<exists>c \<in> set (js '' hi ''). \<not> isWhiteSpace c" using w(4) by (simp add: js_def)
  note t2 = packPayload_whitespace [of "js '' hi ''" ?L ?g None, THEN conjunct2, THEN mp, OF ex]
  have m: \<open>json_stringify ?L (metaOf (secretItems ?L (js '' hi '') None))
       = ascii ''{"v":1,"items":[{"t":"text","name":"message.txt","mime":"text/plain","len":4}]}''\<close>
    unfolding t2 [THEN conjunct2, THEN conjunct2, THEN conjunct1]
    by (simp add: sampleLib_def sample_eval)
  have d: "utf8_encode ?L (js '' hi '') = ascii '' hi ''"
    by (simp add: sampleLib_def sample_eval)
  have c: \<open>packPayload ?L (js '' hi '') None
       = Inr (ascii ''STEGv1'' @ [0, 0, 0, 79]
              @ ascii ''{"v":1,"items":[{"t":"text","name":"message.txt","mime":"text/plain","len":4}]}''
              @ ascii '' hi '')\<close>
    unfolding t2 [THEN conjunct2, THEN conjunct1] m d
    by (simp add: ascii_def u32_def)
  have e: \<open>packPayload ?L (js '' hi '') (Some ?g)
       = Inr (ascii ''STEGv1'' @ [0, 0, 0, 150]
              @ ascii ''{"v":1,"items":[{"t":"text","name":"message.txt","mime":"text/plain","len":4},{"t":"file","name":"secret","mime":"application/octet-stream","len":3}]}''
              @ ascii '' hi '' @ [1, 2, 3])\<close>
    unfolding t2 [THEN conjunct2, THEN conjunct2, THEN conjunct2, THEN conjunct2, THEN conjunct2]
    by (simp add: sampleLib_def sample_eval u32_def)
  from w a b c e show ?thesis by blast
qed



section \<open>Parsing a container\<close>

lemma parseItems_length: "length (parseItems L c off xs) = length xs"
  by (induction xs arbitrary: off) (simp_all add: Let_def)

lemma parseItems_nth:
  assumes "\<forall>x \<in> set xs. 0 \<le> m_len x" and "j < length xs"
  shows "parseItems L c (int p) xs ! j
         = (if m_t (xs ! j) = js ''text'' \<or> m_mime (xs ! j) = js ''text/plain''
            then OutText (m_name (xs ! j)) (m_mime (xs ! j))
                   (utf8_decode L (take (nat (m_len (xs ! j)))
                      (drop (p + nat (sum_list (map m_len (take j xs)))) c)))
            else OutFile (m_name (xs ! j)) (m_mime (xs ! j))
                   (base64_encode L (take (nat (m_len (xs ! j)))
                      (drop (p + nat (sum_list (map m_len (take j xs)))) c))))"
  using assms
proof (induction xs arbitrary: p j)
  case Nil
  then show ?case by simp
next
  case (Cons x xs)
  have x: "0 \<le> m_len x" using Cons.prems(1) by simp
  have sl: "slice c (int p) (int p + m_len x) = take (nat (m_len x)) (drop p c)"
    using x by (simp add: slice_nonneg nat_add_distrib)
  show ?case
  proof (cases j)
    case 0
    then show ?thesis by (simp add: Let_def sl)
  next
    case (Suc j')
    have off: "int p + m_len x = int (p + nat (m_len x))" using x by simp
    have j': "j' < length xs" using Cons.prems(2) Suc by simp
    have nn: "0 \<le> sum_list (map m_len (take j' xs))"
      using Cons.prems(1) by (intro sum_list_nonneg) (auto dest: in_set_takeD)
    have idx: "p + nat (m_len x) + nat (sum_list (map m_len (take j' xs)))
               = p + nat (m_len x + sum_list (map m_len (take j' xs)))"
      using x nn by (simp add: nat_add_distrib)
    have "\<forall>x \<in> set xs. 0 \<le> m_len x" using Cons.prems(1) by simp
    from Cons.IH [OF this j', of "p + nat (m_len x)"] show ?thesis
      unfolding Suc by (simp add: Let_def off idx del: of_nat_add)
  qed
qed

lemma magic_length: "take 6 c = ascii ''STEGv1'' \<Longrightarrow> 6 \<le> length c"
proof -
  assume "take 6 c = ascii ''STEGv1''"
  then have "length (take 6 c) = 6" by simp
  then show ?thesis by simp
qed

lemma parseContainer_magic:
  "take 6 c \<noteq> ascii ''STEGv1'' \<Longrightarrow> parseContainer L c = Inl MagicMismatch"
  by (simp add: parseContainer_def slice_nonneg)

lemma parseContainer_short:
  assumes "take 6 c = ascii ''STEGv1''" and "length c < 10"
  shows "parseContainer L c = Inl RangeError"
proof -
  have "length (slice c 6 10) < 4" using assms(2) by (simp add: slice_nonneg)
  then have "readU32BE (slice c 6 10) = Inl RangeError" by (simp add: readU32BE_def)
  then show ?thesis using assms(1) by (simp add: parseContainer_def slice_nonneg)
qed

lemma parseContainer_metaLen:
  assumes "take 6 c = ascii ''STEGv1''" and "readU32BE (slice c 6 10) = Inr ml"
  shows "parseContainer L c
         = (case json_parse L (take ml (drop 10 c)) of
              None \<Rightarrow> Inl CorruptedMetadata
            | Some m \<Rightarrow>
                Inr (parseItems L c (int (10 + ml))
                       (case meta_items m of Some xs \<Rightarrow> xs | None \<Rightarrow> [])))"
proof -
  have m: "slice c 10 (10 + int ml) = take ml (drop 10 c)"
    by (simp add: slice_nonneg nat_add_distrib)
  have o: "10 + int ml = int (10 + ml)" by simp
  have s0: "slice c 0 6 = take 6 c" by (simp add: slice_nonneg)
  show ?thesis
    unfolding parseContainer_def s0 assms bindE_simps Let_def m
    by (simp only: o if_False simp_thms)
qed

lemma parseContainer_long:
  assumes "take 6 c = ascii ''STEGv1''" and "10 \<le> length c"
  shows "parseContainer L c
         = (case json_parse L
                   (take (unat (c ! 6) * 2 ^ 24 + unat (c ! 7) * 2 ^ 16 + unat (c ! 8) * 2 ^ 8
                          + unat (c ! 9)) (drop 10 c)) of
              None \<Rightarrow> Inl CorruptedMetadata
            | Some m \<Rightarrow>
                Inr (parseItems L c
                       (int (10 + (unat (c ! 6) * 2 ^ 24 + unat (c ! 7) * 2 ^ 16
                                   + unat (c ! 8) * 2 ^ 8 + unat (c ! 9))))
                       (case meta_items m of Some xs \<Rightarrow> xs | None \<Rightarrow> [])))"
proof (rule parseContainer_metaLen [OF assms(1)])
  have s: "slice c 6 10 = take 4 (drop 6 c)" by (simp add: slice_nonneg)
  show "readU32BE (slice c 6 10)
        = Inr (unat (c ! 6) * 2 ^ 24 + unat (c ! 7) * 2 ^ 16 + unat (c ! 8) * 2 ^ 8 + unat (c ! 9))"
    unfolding s using assms(2) by (simp add: readU32BE_def)
qed

lemmas parse_eval = parseContainer_def slice_def adjustOffset_def readU32BE_def ascii_def
  sampleLib_def sample_parse_def sample_decode_def b64_def Let_def

text \<open>
  Claim C3, as the code has it. \<open>parseContainer\<close> fails with "magic mismatch" when the
  first six bytes are not \<open>STEGv1\<close>, with a range error of \<open>readUInt32BE\<close> when fewer than
  four bytes follow the magic, and with "Corrupted container metadata" when the
  metadata bytes are not valid JSON; the metadata bytes are the declared number of bytes
  after the length, or those up to the end of the buffer when there are fewer. A failure
  returns no items, and a success returns one item for every entry of the metadata, never
  fewer. A declared length that runs past the end of the buffer is not an error: for
  entries with lengths from 0 on, the data of entry \<open>j\<close> are the declared number of bytes
  from the sum of the lengths before it on, or those up to the end of the buffer when
  there are fewer; an entry is a text when its \<open>t\<close> is \<open>text\<close> or its mime is
  \<open>text/plain\<close>.
\<close>

theorem parseContainer_cases:
  "(take 6 c \<noteq> ascii ''STEGv1'' \<longrightarrow> parseContainer L c = Inl MagicMismatch)
   \<and> (take 6 c = ascii ''STEGv1'' \<and> length c < 10 \<longrightarrow> parseContainer L c = Inl RangeError)
   \<and> (take 6 c = ascii ''STEGv1'' \<and> 10 \<le> length c
        \<and> json_parse L
             (take (unat (c ! 6) * 2 ^ 24 + unat (c ! 7) * 2 ^ 16 + unat (c ! 8) * 2 ^ 8 + unat (c ! 9))
               (drop 10 c)) = None \<longrightarrow>
        parseContainer L c = Inl CorruptedMetadata)
   \<and> (take 6 c = ascii ''STEGv1'' \<and> 10 \<le> length c
        \<and> json_parse L
             (take (unat (c ! 6) * 2 ^ 24 + unat (c ! 7) * 2 ^ 16 + unat (c ! 8) * 2 ^ 8 + unat (c ! 9))
               (drop 10 c)) = Some m \<longrightarrow>
        (\<exists>items. parseContainer L c = Inr items
           \<and> length items = length (case meta_items m of Some xs \<Rightarrow> xs | None \<Rightarrow> [])))
   \<and> (take 6 c = ascii ''STEGv1'' \<and> 10 \<le> length c
        \<and> json_parse L
             (take (unat (c ! 6) * 2 ^ 24 + unat (c ! 7) * 2 ^ 16 + unat (c ! 8) * 2 ^ 8 + unat (c ! 9))
               (drop 10 c)) = Some m
        \<and> meta_items m = Some xs \<and> (\<forall>x \<in> set xs. 0 \<le> m_len x) \<longrightarrow>
        (\<exists>items. parseContainer L c = Inr items
           \<and> length items = length xs
           \<and> (\<forall>j < length xs.
                 items ! j =
                 (if m_t (xs ! j) = js ''text'' \<or> m_mime (xs ! j) = js ''text/plain''
                  then OutText (m_name (xs ! j)) (m_mime (xs ! j))
                     (utf8_decode L
                       (take (nat (m_len (xs ! j)))
                        (drop (10 + (unat (c ! 6) * 2 ^ 24 + unat (c ! 7) * 2 ^ 16 + unat (c ! 8) * 2 ^ 8 + unat (c ! 9))
                              + nat (sum_list (map m_len (take j xs)))) c)))
                  else OutFile (m_name (xs ! j)) (m_mime (xs ! j))
                     (base64_encode L
                       (take (nat (m_len (xs ! j)))
                        (drop (10 + (unat (c ! 6) * 2 ^ 24 + unat (c ! 7) * 2 ^ 16 + unat (c ! 8) * 2 ^ 8 + unat (c ! 9))
                              + nat (sum_list (map m_len (take j xs)))) c)))))))"
proof (intro conjI impI)
  assume "take 6 c \<noteq> ascii ''STEGv1''"
  then show "parseContainer L c = Inl MagicMismatch" by (rule parseContainer_magic)
next
  assume "take 6 c = ascii ''STEGv1'' \<and> length c < 10"
  then show "parseContainer L c = Inl RangeError" by (simp add: parseContainer_short)
next
  assume a: "take 6 c = ascii ''STEGv1'' \<and> 10 \<le> length c
        \<and> json_parse L
             (take (unat (c ! 6) * 2 ^ 24 + unat (c ! 7) * 2 ^ 16 + unat (c ! 8) * 2 ^ 8 + unat (c ! 9))
               (drop 10 c)) = None"
  show "parseContainer L c = Inl CorruptedMetadata"
    using a by (simp add: parseContainer_long)
next
  assume a: "take 6 c = ascii ''STEGv1'' \<and> 10 \<le> length c
        \<and> json_parse L
             (take (unat (c ! 6) * 2 ^ 24 + unat (c ! 7) * 2 ^ 16 + unat (c ! 8) * 2 ^ 8 + unat (c ! 9))
               (drop 10 c)) = Some m"
  show "\<exists>items. parseContainer L c = Inr items
           \<and> length items = length (case meta_items m of Some xs \<Rightarrow> xs | None \<Rightarrow> [])"
    using a by (simp add: parseContainer_long parseItems_length)
next
  assume a: "take 6 c = ascii ''STEGv1'' \<and> 10 \<le> length c
        \<and> json_parse L
             (take (unat (c ! 6) * 2 ^ 24 + unat (c ! 7) * 2 ^ 16 + unat (c ! 8) * 2 ^ 8 + unat (c ! 9))
               (drop 10 c)) = Some m
        \<and> meta_items m = Some xs \<and> (\<forall>x \<in> set xs. 0 \<le> m_len x)"
  then have nn: "\<forall>x \<in> set xs. 0 \<le> m_len x" by simp
  have "parseContainer L c
        = Inr (parseItems L c (int (10 + (unat (c ! 6) * 2 ^ 24 + unat (c ! 7) * 2 ^ 16 + unat (c ! 8) * 2 ^ 8 + unat (c ! 9)))) xs)"
    using a by (simp add: parseContainer_long)
  then show "\<exists>items. parseContainer L c = Inr items
           \<and> length items = length xs
           \<and> (\<forall>j < length xs.
                 items ! j =
                 (if m_t (xs ! j) = js ''text'' \<or> m_mime (xs ! j) = js ''text/plain''
                  then OutText (m_name (xs ! j)) (m_mime (xs ! j))
                     (utf8_decode L
                       (take (nat (m_len (xs ! j)))
                        (drop (10 + (unat (c ! 6) * 2 ^ 24 + unat (c ! 7) * 2 ^ 16 + unat (c ! 8) * 2 ^ 8 + unat (c ! 9))
                              + nat (sum_list (map m_len (take j xs)))) c)))
                  else OutFile (m_name (xs ! j)) (m_mime (xs ! j))
                     (base64_encode L
                       (take (nat (m_len (xs ! j)))
                        (drop (10 + (unat (c ! 6) * 2 ^ 24 + unat (c ! 7) * 2 ^ 16 + unat (c ! 8) * 2 ^ 8 + unat (c ! 9))
                              + nat (sum_list (map m_len (take j xs)))) c)))))"
    using parseItems_nth [OF nn, of _ L c "10 + (unat (c ! 6) * 2 ^ 24 + unat (c ! 7) * 2 ^ 16 + unat (c ! 8) * 2 ^ 8 + unat (c ! 9))"]
    by (simp add: parseItems_length)
qed

theorem parseContainer_cases_witness:
  \<open>take 6 (ascii ''RIFFxxxxWAVE'') \<noteq> ascii ''STEGv1''
   \<and> parseContainer (sampleLib []) (ascii ''RIFFxxxxWAVE'') = Inl MagicMismatch
   \<and> take 6 (ascii ''STEGv1'' @ [0, 0]) = ascii ''STEGv1''
   \<and> length (ascii ''STEGv1'' @ [0, 0 :: byte]) < 10
   \<and> parseContainer (sampleLib []) (ascii ''STEGv1'' @ [0, 0]) = Inl RangeError
   \<and> json_parse (sampleLib []) (ascii ''{]'') = None
   \<and> parseContainer (sampleLib []) (ascii ''STEGv1'' @ [0, 0, 0, 2] @ ascii ''{]'')
       = Inl CorruptedMetadata
   \<and> json_parse (sampleLib [\<lparr>meta_v = 1, meta_items = Some [\<lparr>m_t = js ''text'', m_name = js ''n.txt'', m_mime = js ''x/y'', m_len = 2\<rparr>,
       \<lparr>m_t = js ''file'', m_name = js ''a.bin'', m_mime = js ''text/plain'', m_len = 1\<rparr>,
       \<lparr>m_t = js ''file'', m_name = js ''b.bin'', m_mime = js ''x/y'', m_len = 3\<rparr>]\<rparr>])
        (ascii ''{"v":1,"items":[{"t":"text","name":"n.txt","mime":"x/y","len":2},{"t":"file","name":"a.bin","mime":"text/plain","len":1},{"t":"file","name":"b.bin","mime":"x/y","len":3}]}'')
       = Some \<lparr>meta_v = 1, meta_items = Some [\<lparr>m_t = js ''text'', m_name = js ''n.txt'', m_mime = js ''x/y'', m_len = 2\<rparr>,
       \<lparr>m_t = js ''file'', m_name = js ''a.bin'', m_mime = js ''text/plain'', m_len = 1\<rparr>,
       \<lparr>m_t = js ''file'', m_name = js ''b.bin'', m_mime = js ''x/y'', m_len = 3\<rparr>]\<rparr>
   \<and> parseContainer (sampleLib [\<lparr>meta_v = 1, meta_items = Some [\<lparr>m_t = js ''text'', m_name = js ''n.txt'', m_mime = js ''x/y'', m_len = 2\<rparr>,
       \<lparr>m_t = js ''file'', m_name = js ''a.bin'', m_mime = js ''text/plain'', m_len = 1\<rparr>,
       \<lparr>m_t = js ''file'', m_name = js ''b.bin'', m_mime = js ''x/y'', m_len = 3\<rparr>]\<rparr>])
        (ascii ''STEGv1'' @ [0, 0, 0, 171] @ ascii ''{"v":1,"items":[{"t":"text","name":"n.txt","mime":"x/y","len":2},{"t":"file","name":"a.bin","mime":"text/plain","len":1},{"t":"file","name":"b.bin","mime":"x/y","len":3}]}'' @ [0x68, 0x69, 0x41, 1, 2, 3])
       = Inr [OutText (js ''n.txt'') (js ''x/y'') (js ''hi''),
              OutText (js ''a.bin'') (js ''text/plain'') (js ''A''),
              OutFile (js ''b.bin'') (js ''x/y'') (js ''AQID'')]\<close>
proof -
  let ?L = "sampleLib []"
  let ?M = "\<lparr>meta_v = 1, meta_items = Some [\<lparr>m_t = js ''text'', m_name = js ''n.txt'', m_mime = js ''x/y'', m_len = 2\<rparr>,
       \<lparr>m_t = js ''file'', m_name = js ''a.bin'', m_mime = js ''text/plain'', m_len = 1\<rparr>,
       \<lparr>m_t = js ''file'', m_name = js ''b.bin'', m_mime = js ''x/y'', m_len = 3\<rparr>]\<rparr>"
  let ?C = \<open>(ascii ''STEGv1'' @ [0, 0, 0, 171] @ ascii ''{"v":1,"items":[{"t":"text","name":"n.txt","mime":"x/y","len":2},{"t":"file","name":"a.bin","mime":"text/plain","len":1},{"t":"file","name":"b.bin","mime":"x/y","len":3}]}'' @ [0x68, 0x69, 0x41, 1, 2, 3])\<close>
  have m1: "take 6 (ascii ''RIFFxxxxWAVE'') \<noteq> ascii ''STEGv1''" by (simp add: ascii_def)
  have w1: "parseContainer ?L (ascii ''RIFFxxxxWAVE'') = Inl MagicMismatch"
    using parseContainer_cases [of "ascii ''RIFFxxxxWAVE''" ?L, THEN conjunct1] m1 by blast
  have m2: "take 6 (ascii ''STEGv1'' @ [0, 0]) = ascii ''STEGv1''"
      "length (ascii ''STEGv1'' @ [0, 0 :: byte]) < 10"
    by (simp_all add: ascii_def)
  have w2: "parseContainer ?L (ascii ''STEGv1'' @ [0, 0]) = Inl RangeError"
    using parseContainer_cases [of "ascii ''STEGv1'' @ [0, 0]" ?L, THEN conjunct2, THEN conjunct1]
      m2 by blast
  have j3: "json_parse ?L (ascii ''{]'') = None"
    by (simp add: sampleLib_def sample_parse_def)
  have w3: "parseContainer ?L (ascii ''STEGv1'' @ [0, 0, 0, 2] @ ascii ''{]'')
       = Inl CorruptedMetadata"
    using parseContainer_cases [of "ascii ''STEGv1'' @ [0, 0, 0, 2] @ ascii ''{]''" ?L,
        THEN conjunct2, THEN conjunct2, THEN conjunct1] j3
    by (simp add: ascii_def)
  have j5: \<open>json_parse (sampleLib [?M])
        (ascii ''{"v":1,"items":[{"t":"text","name":"n.txt","mime":"x/y","len":2},{"t":"file","name":"a.bin","mime":"text/plain","len":1},{"t":"file","name":"b.bin","mime":"x/y","len":3}]}'')
       = Some ?M\<close>
    by (simp add: sampleLib_def sample_parse_def sample_eval)
  have c5: "\<exists>items. parseContainer (sampleLib [?M]) ?C = Inr items \<and> length items = 3"
    using parseContainer_cases [of ?C "sampleLib [?M]" ?M,
        THEN conjunct2, THEN conjunct2, THEN conjunct2, THEN conjunct1] j5
    by (simp add: ascii_def numeral_3_eq_3)
  have w5: "parseContainer (sampleLib [?M]) ?C
       = Inr [OutText (js ''n.txt'') (js ''x/y'') (js ''hi''),
              OutText (js ''a.bin'') (js ''text/plain'') (js ''A''),
              OutFile (js ''b.bin'') (js ''x/y'') (js ''AQID'')]"
    by (simp add: parse_eval sample_eval)
  from m1 w1 m2 w2 j3 w3 j5 c5 w5 show ?thesis by blast
qed

text \<open>
  The claim as the specification words it fails on two containers. In the first the only
  entry declares 10 bytes where 3 remain: the parse returns the item with those 3 bytes.
  In the second the length field declares 256 bytes of metadata where 18 remain: the
  parse reads the 18 bytes and returns the empty list of items.
\<close>

theorem parseContainer_counterexample:
  \<open>length (ascii ''STEGv1'' @ [0, 0, 0, 67] @ ascii ''{"v":1,"items":[{"t":"file","name":"a.bin","mime":"x/y","len":10}]}'' @ [1, 2, 3]) = 10 + 67 + 3
   \<and> parseContainer (sampleLib [\<lparr>meta_v = 1, meta_items = Some [\<lparr>m_t = js ''file'', m_name = js ''a.bin'', m_mime = js ''x/y'', m_len = 10\<rparr>]\<rparr>])
        (ascii ''STEGv1'' @ [0, 0, 0, 67] @ ascii ''{"v":1,"items":[{"t":"file","name":"a.bin","mime":"x/y","len":10}]}'' @ [1, 2, 3])
       = Inr [OutFile (js ''a.bin'') (js ''x/y'') (js ''AQID'')]
   \<and> length (ascii ''STEGv1'' @ [0, 0, 1, 0] @ ascii ''{"v":1,"items":[]}'') = 10 + 18
   \<and> parseContainer (sampleLib [\<lparr>meta_v = 1, meta_items = Some []\<rparr>])
        (ascii ''STEGv1'' @ [0, 0, 1, 0] @ ascii ''{"v":1,"items":[]}'')
       = Inr []\<close>
  by (simp add: parse_eval sample_eval)


















end
